(* ===== verification/RL_Prelude.thy ===== *)
theory RL_Prelude
  imports Main "HOL-Library.Word"
begin

text \<open>
  Shared vocabulary of the development: the machine types of the C code on a 64-bit platform,
  bytes and byte strings, nginx return codes and HTTP statuses, decimal text, and the generic
  list lemmas the component theories use.  A byte string (\<open>ngx_str_t\<close>) is a list of
  characters; HOL's \<open>char\<close> has exactly 256 values, so it is a \<open>u_char\<close>.
\<close>

named_theorems rl_defs \<open>definitions of straight-line operations\<close>
named_theorems rl_frame \<open>fields an operation does not touch\<close>

section \<open>Machine types and constants\<close>

type_synonym u64 = "64 word"
type_synonym ngx_str = "char list"

text \<open>Return codes (\<open>ngx_int_t\<close>): the negative codes of nginx and the HTTP statuses
  share one integer type in the C code, so they do here.\<close>

abbreviation (input) NGX_OK :: int where "NGX_OK \<equiv> 0"
abbreviation (input) NGX_ERROR :: int where "NGX_ERROR \<equiv> -1"
abbreviation (input) NGX_AGAIN :: int where "NGX_AGAIN \<equiv> -2"
abbreviation (input) NGX_DONE :: int where "NGX_DONE \<equiv> -4"
abbreviation (input) NGX_DECLINED :: int where "NGX_DECLINED \<equiv> -5"

abbreviation (input) UPSTREAM_INVALID_HEADER :: int where "UPSTREAM_INVALID_HEADER \<equiv> 40"
abbreviation (input) HTTP_INTERNAL_SERVER_ERROR :: int where "HTTP_INTERNAL_SERVER_ERROR \<equiv> 500"
abbreviation (input) HTTP_BAD_GATEWAY :: int where "HTTP_BAD_GATEWAY \<equiv> 502"
abbreviation (input) HTTP_SERVICE_UNAVAILABLE :: int where "HTTP_SERVICE_UNAVAILABLE \<equiv> 503"
abbreviation (input) HTTP_GATEWAY_TIME_OUT :: int where "HTTP_GATEWAY_TIME_OUT \<equiv> 504"

text \<open>Statuses as they are held in \<open>u->state->status\<close> (an \<open>ngx_uint_t\<close>).\<close>

abbreviation (input) ST_OK :: u64 where "ST_OK \<equiv> 200"
abbreviation (input) ST_BAD_REQUEST :: u64 where "ST_BAD_REQUEST \<equiv> 400"
abbreviation (input) ST_TOO_MANY_REQUESTS :: u64 where "ST_TOO_MANY_REQUESTS \<equiv> 429"
abbreviation (input) ST_BAD_GATEWAY :: u64 where "ST_BAD_GATEWAY \<equiv> 502"
abbreviation (input) ST_SERVICE_UNAVAILABLE :: u64 where "ST_SERVICE_UNAVAILABLE \<equiv> 503"
abbreviation (input) ST_GATEWAY_TIME_OUT :: u64 where "ST_GATEWAY_TIME_OUT \<equiv> 504"

abbreviation (input) NGX_MAX_INT :: u64 where "NGX_MAX_INT \<equiv> 9223372036854775807"

section \<open>Bytes\<close>

abbreviation CR :: char where "CR \<equiv> CHR 0x0D"
abbreviation LF :: char where "LF \<equiv> CHR 0x0A"
abbreviation CRLF :: ngx_str where "CRLF \<equiv> [CR, LF]"

text \<open>The numeric value of a \<open>u_char\<close>.\<close>

definition byte :: "char \<Rightarrow> nat" where
  "byte c = of_char c"

text \<open>\<open>ch >= '0' && ch <= '9'\<close>\<close>

definition is_digit :: "char \<Rightarrow> bool" where
  "is_digit c \<longleftrightarrow> 48 \<le> byte c \<and> byte c \<le> 57"

definition digit_val :: "char \<Rightarrow> nat" where
  "digit_val c = byte c - 48"

definition digit :: "nat \<Rightarrow> char" where
  "digit d = char_of (48 + d)"

lemma byte_lt_256 [simp]: "byte c < 256"
  by (simp add: byte_def)

lemma of_char_byte: "(of_char c :: u64) = of_nat (byte c)"
  by (simp add: byte_def of_nat_of_char)

lemma byte_inj: "byte c = byte d \<Longrightarrow> c = d"
  by (simp add: byte_def)

lemma digit_chars [simp]:
  "digit 0 = CHR ''0''" "digit (Suc 0) = CHR ''1''" "digit 1 = CHR ''1''" "digit 2 = CHR ''2''"
  "digit 3 = CHR ''3''" "digit 4 = CHR ''4''" "digit 5 = CHR ''5''" "digit 6 = CHR ''6''"
  "digit 7 = CHR ''7''" "digit 8 = CHR ''8''" "digit 9 = CHR ''9''"
  by (simp_all add: digit_def char_of_def bit_Suc_0_iff)

lemma byte_digit: "d < 10 \<Longrightarrow> byte (digit d) = 48 + d"
  by (simp add: byte_def digit_def)

lemma is_digit_digit [simp]: "d < 10 \<Longrightarrow> is_digit (digit d)"
  by (simp add: is_digit_def byte_digit)

lemma digit_val_digit [simp]: "d < 10 \<Longrightarrow> digit_val (digit d) = d"
  by (simp add: digit_val_def byte_digit)

lemma digit_val_lt_10: "is_digit c \<Longrightarrow> digit_val c < 10"
  unfolding is_digit_def digit_val_def by arith

lemma not_is_digit [simp]:
  "\<not> is_digit CR" "\<not> is_digit LF" "\<not> is_digit (CHR '':'')" "\<not> is_digit (CHR ''-'')"
  "\<not> is_digit (CHR ''$'')" "\<not> is_digit (CHR ''*'')" "\<not> is_digit (CHR ''r'')"
  by (simp_all add: is_digit_def byte_def)

lemma is_digit_neq:
  assumes "is_digit c"
  shows "c \<noteq> CR" "c \<noteq> LF" "c \<noteq> CHR '':''" "c \<noteq> CHR ''-''" "c \<noteq> CHR ''$''" "c \<noteq> CHR ''*''"
  using assms by auto

section \<open>Decimal text\<close>

text \<open>The decimal digits of a number, most significant first, and the reading of a digit string.\<close>

fun dec :: "nat \<Rightarrow> ngx_str" where
  "dec n = (if n < 10 then [digit n] else dec (n div 10) @ [digit (n mod 10)])"

declare dec.simps [simp del]

definition dec_value_from :: "nat \<Rightarrow> ngx_str \<Rightarrow> nat" where
  "dec_value_from a s = foldl (\<lambda>v c. v * 10 + digit_val c) a s"

abbreviation dec_value :: "ngx_str \<Rightarrow> nat" where
  "dec_value \<equiv> dec_value_from 0"

lemma dec_value_from_simps [simp]:
  "dec_value_from a [] = a"
  "dec_value_from a (c # s) = dec_value_from (a * 10 + digit_val c) s"
  "dec_value_from a (s @ t) = dec_value_from (dec_value_from a s) t"
  by (simp_all add: dec_value_from_def)

lemma dec_value_from_ge: "a \<le> dec_value_from a s"
proof (induction s arbitrary: a)
  case (Cons c s)
  have "a \<le> a * 10 + digit_val c" by simp
  also have "\<dots> \<le> dec_value_from (a * 10 + digit_val c) s" by (rule Cons.IH)
  finally show ?case by simp
qed simp

lemma dec_nonempty [simp]: "dec n \<noteq> []"
  by (subst dec.simps) simp

lemma dec_digits: "c \<in> set (dec n) \<Longrightarrow> is_digit c"
proof (induction n rule: dec.induct)
  case (1 n)
  then show ?case
    by (cases "n < 10") (auto simp: dec.simps [of n])
qed

lemma dec_value_dec [simp]: "dec_value (dec n) = n"
proof (induction n rule: dec.induct)
  case (1 n)
  show ?case
  proof (cases "n < 10")
    case False
    with 1 have "dec_value (dec (n div 10)) = n div 10" by simp
    with False show ?thesis by (simp add: dec.simps [of n])
  qed (simp add: dec.simps [of n])
qed

lemma dec_inj: "dec m = dec n \<Longrightarrow> m = n"
  by (metis dec_value_dec)

lemma dec_length_bound: "n < 10 ^ k \<Longrightarrow> 0 < k \<Longrightarrow> length (dec n) \<le> k"
proof (induction k arbitrary: n)
  case (Suc k)
  show ?case
  proof (cases "n < 10")
    case False
    then have "0 < k" using Suc.prems by (cases k) auto
    moreover have "n div 10 < 10 ^ k"
      using Suc.prems(1) by (simp add: less_mult_imp_div_less mult.commute)
    ultimately have "length (dec (n div 10)) \<le> k" by (rule Suc.IH [rotated])
    with False show ?thesis by (simp add: dec.simps [of n])
  qed (simp add: dec.simps [of n])
qed simp

text \<open>Dropping one line end, exactly CR LF.\<close>

definition strict_eol :: "ngx_str \<Rightarrow> ngx_str option" where
  "strict_eol s = (case s of a # b # t \<Rightarrow> if a = CR \<and> b = LF then Some t else None | _ \<Rightarrow> None)"

lemma strict_eol_CRLF [simp]: "strict_eol (CR # LF # s) = Some s"
  by (simp add: strict_eol_def)

section \<open>Words\<close>

lemma unat_lt_2p64: "unat (w :: u64) < 2 ^ 64"
  using unsigned_less [of w] by simp

lemma unat_of_nat_u64: "n < 2 ^ 64 \<Longrightarrow> unat (of_nat n :: u64) = n"
  by (simp add: unat_of_nat)

section \<open>Memory\<close>

text \<open>Overwriting bytes of a memory block from an offset on.\<close>

definition mem_write :: "char list \<Rightarrow> nat \<Rightarrow> char list \<Rightarrow> char list" where
  "mem_write m i bs = take i m @ bs @ drop (i + length bs) m"

lemma length_mem_write [simp]:
  "i + length bs \<le> length m \<Longrightarrow> length (mem_write m i bs) = length m"
  by (simp add: mem_write_def)

lemma mem_write_read:
  "i \<le> length m \<Longrightarrow> take (length bs) (drop i (mem_write m i bs)) = bs"
  by (simp add: mem_write_def)

lemma take_mem_write [simp]: "i \<le> length m \<Longrightarrow> j \<le> i \<Longrightarrow> take j (mem_write m i bs) = take j m"
  by (simp add: mem_write_def)

text \<open>The bytes between two offsets.\<close>

definition span_of :: "char list \<Rightarrow> nat \<Rightarrow> nat \<Rightarrow> char list" where
  "span_of m i j = take (j - i) (drop i m)"

lemma length_span_of [simp]: "length (span_of m i j) = min (j - i) (length m - i)"
  by (simp add: span_of_def)

lemma span_of_empty [simp]: "span_of m i i = []"
  by (simp add: span_of_def)

end
