(* ===== verification/RL_Types.thy ===== *)
theory RL_Types
  imports RL_Prelude
begin

text \<open>
  The state of the module: the structures of \<open>ngx_http_ratelimit_module.h\<close> and the part of
  nginx's request, upstream, connection and buffer structures that the module reads or writes.
  Calls into nginx that have an effect outside these structures are recorded, in order, in the
  request's \<open>r_effects\<close>; memory allocations take their outcome from \<open>r_allocs\<close>, so a
  theorem that holds for every \<open>r_allocs\<close> holds however allocation fails.
\<close>

section \<open>Buffers\<close>

text \<open>\<open>ngx_buf_t\<close>: \<open>b_mem\<close> is the memory from \<open>start\<close> to \<open>end\<close>, and the
  pointers \<open>pos\<close>, \<open>last\<close> are offsets from \<open>start\<close>.\<close>

record ngx_buf =
  b_mem :: "char list"
  b_pos :: nat
  b_last :: nat
  b_last_buf :: bool

abbreviation b_end :: "ngx_buf \<Rightarrow> nat" where
  "b_end b \<equiv> length (b_mem b)"

text \<open>The unread bytes of a buffer.\<close>

definition b_data :: "ngx_buf \<Rightarrow> char list" where
  "b_data b = span_of (b_mem b) (b_pos b) (b_last b)"

definition buf_ok :: "ngx_buf \<Rightarrow> bool" where
  "buf_ok b \<longleftrightarrow> b_pos b \<le> b_last b \<and> b_last b \<le> b_end b"

text \<open>What a read into the buffer leaves in memory from \<open>last\<close> on; the caller moves
  \<open>last\<close>.  A rewound buffer is filled from \<open>start\<close> again.\<close>

definition buf_store :: "ngx_buf \<Rightarrow> char list \<Rightarrow> ngx_buf" where
  "buf_store b bs = b\<lparr>b_mem := mem_write (b_mem b) (b_last b) bs\<rparr>"

definition buf_rewind :: "ngx_buf \<Rightarrow> ngx_buf" where
  "buf_rewind b = b\<lparr>b_pos := 0, b_last := 0\<rparr>"

definition empty_buf :: ngx_buf where
  "empty_buf = \<lparr>b_mem = [], b_pos = 0, b_last = 0, b_last_buf = False\<rparr>"

section \<open>Configuration (\<open>ngx_http_ratelimit_module.h\<close>)\<close>

datatype algo =
  ALGO_FIXED_WINDOW | ALGO_TOKEN_BUCKET | ALGO_GCRA | ALGO_SLIDING_WINDOW | ALGO_CUSTOM

definition MAX_KEY_LEN :: nat where "MAX_KEY_LEN = 65535"
definition MAX_SCRIPT_LEN :: nat where "MAX_SCRIPT_LEN = 65536"
definition LUA_MAX_SAFE_INT :: int where "LUA_MAX_SAFE_INT = 9007199254740991"

abbreviation (input) ON_ERROR_DENY :: u64 where "ON_ERROR_DENY \<equiv> 0"
abbreviation (input) ON_ERROR_ALLOW :: u64 where "ON_ERROR_ALLOW \<equiv> 1"

text \<open>\<open>NGX_CONF_UNSET\<close> and its unsigned variants are the all-ones word.\<close>

abbreviation (input) CONF_UNSET :: u64 where "CONF_UNSET \<equiv> -1"

text \<open>A compiled complex value is a handle; nginx evaluates it per request.\<close>

type_synonym complex_value = nat

record zone =
  z_name :: ngx_str
  z_key :: complex_value
  z_requests :: u64
  z_period :: u64
  z_burst :: u64
  z_algo :: algo
  z_script_path :: ngx_str
  z_script_body :: ngx_str
  z_script_sha :: ngx_str

text \<open>An upstream server block (\<open>ngx_http_upstream_srv_conf_t\<close>): its host and port.\<close>

record srv_conf =
  us_host :: ngx_str
  us_port :: nat

record loc_conf =
  lc_zone_name :: ngx_str
  lc_zone :: "zone option"
  lc_burst :: u64
  lc_upstream :: "srv_conf option"
  lc_connect_timeout :: u64
  lc_send_timeout :: u64
  lc_read_timeout :: u64
  lc_buffer_size :: u64
  lc_complex_target :: "complex_value option"
  lc_password :: ngx_str
  lc_database :: u64
  lc_enable_headers :: u64
  lc_status_code :: u64
  lc_limit_log_level :: u64
  lc_on_error :: u64
  lc_prefix :: ngx_str
  lc_quantity :: u64

section \<open>Per-request context\<close>

text \<open>The parser states of \<open>ngx_http_ratelimit_process_reply\<close>.\<close>

datatype sw =
  sw_start | sw_CRLF1 | sw_ARG1 | sw_CRLF2 | sw_ARG2 | sw_LF1 | sw_ARG3 | sw_LF2
| sw_ARG4 | sw_ALLOWED | sw_LF3 | sw_ARG5 | sw_almost_done

text \<open>\<open>ngx_http_ratelimit_ctx_t\<close>.  Buffers live in the request pool, so the prelude chain and
  \<open>auth_buf\<close> are addresses into it; \<open>retry_after\<close> is a signed word, read with
  \<open>sint\<close>.  The back pointer \<open>ctx->request\<close> is the request that holds the context.\<close>

record rl_ctx =
  key :: ngx_str
  state :: sw
  finalized :: bool
  reply_parsed :: bool
  eval_fallback :: bool
  prelude_chain :: "nat list"
  prelude_replies :: nat
  auth_buf :: "nat option"
  limit :: u64
  remaining :: u64
  reset :: u64
  retry_after :: u64

definition zero_ctx :: rl_ctx where
  "zero_ctx = \<lparr>key = [], state = sw_start, finalized = False, reply_parsed = False,
     eval_fallback = False, prelude_chain = [], prelude_replies = 0, auth_buf = None,
     limit = 0, remaining = 0, reset = 0, retry_after = 0\<rparr>"

section \<open>The connection to Redis\<close>

text \<open>What the next calls of \<open>c->recv\<close> and \<open>c->send\<close> return.  A \<open>Recv_data\<close> event
  carries the bytes in the socket and whether \<open>c->read->ready\<close> stays set after they have been
  read.  An event that is not there yet is \<open>NGX_AGAIN\<close>.\<close>

datatype recv_ev = Recv_again | Recv_error | Recv_eof | Recv_data "char list" bool
datatype send_ev = Send_again | Send_error | Send_bytes nat

record conn =
  c_recv :: "recv_ev list"
  c_send :: "send_ev list"
  c_rd_ready :: bool
  c_rd_eof :: bool
  c_rd_error :: bool
  c_rd_timedout :: bool
  c_rd_active :: bool
  c_rd_timer_set :: bool
  c_rd_event_ok :: bool  \<comment> \<open>\<open>ngx_handle_read_event\<close> succeeds\<close>
  c_wr_timedout :: bool
  c_wr_timer_set :: bool
  c_wr_event_ok :: bool  \<comment> \<open>\<open>ngx_handle_write_event\<close> succeeds\<close>
  c_so_error :: bool     \<comment> \<open>\<open>getsockopt(SO_ERROR)\<close> reports a connect error\<close>
  c_has_pool :: bool
  c_sent :: nat

section \<open>The upstream\<close>

datatype read_handler = RH_stock | RH_header | RH_body
datatype write_handler = WH_stock | WH_dummy | WH_send_eval

text \<open>\<open>ngx_http_upstream_t\<close> with \<open>u->state\<close> inlined.  \<open>u_start_null\<close> says that
  \<open>u->buffer.start == NULL\<close>; \<open>u_pipe\<close> holds \<open>read_length\<close> and \<open>preread_size\<close>.\<close>

record upstream =
  u_cleanup :: bool
  u_resolving :: bool
  u_status :: u64
  u_response_time :: u64
  u_header_time :: u64
  u_bytes_received :: int
  u_bytes_sent :: int
  u_response_length :: int
  u_start_time :: u64
  u_pipe :: "(int \<times> int) option"
  u_peer_free :: bool
  u_peer_sockaddr :: bool
  u_conn :: "conn option"
  u_start_null :: bool
  u_buffer :: ngx_buf
  u_length :: int
  u_keepalive :: bool
  u_request_sent :: bool
  u_request_bufs :: "nat list"
  u_out_bufs :: bool
  u_busy_bufs :: bool
  u_read_handler :: read_handler
  u_write_handler :: write_handler

section \<open>The request\<close>

text \<open>Effects outside the modelled structures, in the order the code causes them.\<close>

datatype effect =
  Finalize_request int
| Run_phases
| Resolve_done
| Free_peer
| Destroy_conn_pool
| Close_connection
| Sent ngx_str
| Flush_client
| Log_error ngx_str
| Upstream_init

datatype r_read_handler = RR_stock | RR_block_reading
datatype r_write_handler = RW_stock | RW_run_phases

record header =
  h_key :: ngx_str
  h_value :: ngx_str
  h_lowcase_key :: ngx_str
  h_hash :: nat

record request =
  r_pool :: "ngx_buf list"
  r_cleanups :: "nat list"   \<comment> \<open>buffers with a registered \<open>wipe_auth\<close> pool cleanup\<close>
  r_allocs :: "bool list"
  r_ctx :: "rl_ctx option"
  r_done :: bool             \<comment> \<open>\<open>r->main->variables[done_index].valid\<close>\<close>
  r_main_count :: nat
  r_u :: upstream
  r_headers_out :: "header list"
  r_read_event_handler :: r_read_handler
  r_write_event_handler :: r_write_handler
  r_tcp_nodelay_ok :: bool   \<comment> \<open>not configured, or \<open>ngx_tcp_nodelay\<close> succeeds\<close>
  r_flush_ok :: bool         \<comment> \<open>\<open>ngx_http_send_special\<close> succeeds\<close>
  r_msec :: u64              \<comment> \<open>\<open>ngx_current_msec\<close>\<close>
  r_effects :: "effect list"

definition emit :: "effect \<Rightarrow> request \<Rightarrow> request" where
  "emit e r = r\<lparr>r_effects := r_effects r @ [e]\<rparr>"

text \<open>One allocation from the request pool: its outcome is the next element of
  \<open>r_allocs\<close> (success when the list is used up).\<close>

definition alloc :: "request \<Rightarrow> bool \<times> request" where
  "alloc r = (case r_allocs r of [] \<Rightarrow> (True, r) | ok # as \<Rightarrow> (ok, r\<lparr>r_allocs := as\<rparr>))"

abbreviation map_u :: "(upstream \<Rightarrow> upstream) \<Rightarrow> request \<Rightarrow> request" where
  "map_u f r \<equiv> r\<lparr>r_u := f (r_u r)\<rparr>"

text \<open>Adding a buffer to the pool; its address is its index.\<close>

definition pool_add :: "ngx_buf \<Rightarrow> request \<Rightarrow> nat \<times> request" where
  "pool_add b r = (length (r_pool r), r\<lparr>r_pool := r_pool r @ [b]\<rparr>)"

section \<open>Services of the platform\<close>

text \<open>
  Functions of nginx that the module calls and whose code is not part of the repository: the
  \<open>%ui\<close> / \<open>%uz\<close> conversion of \<open>ngx_sprintf\<close>, the evaluation of a complex value
  for the request at hand (\<open>None\<close> is an error return), and whether the peer's \<open>free\<close> callback
  takes the connection into the keepalive pool.  They are an argument of every definition that
  uses them.
\<close>

record platform =
  p_sprintf_ui :: "u64 \<Rightarrow> ngx_str"
  p_complex_value :: "complex_value \<Rightarrow> ngx_str option"
  p_keeps_connection :: "upstream \<Rightarrow> bool"

text \<open>The documented behaviour the code relies on: \<open>%ui\<close> prints the decimal digits.\<close>

definition decimal_sprintf :: "platform \<Rightarrow> bool" where
  "decimal_sprintf P \<longleftrightarrow> (\<forall>v. p_sprintf_ui P v = dec (unat v))"

section \<open>Basic facts\<close>

lemma alloc_cases:
  obtains "r_allocs r = []" "alloc r = (True, r)"
  | ok as where "r_allocs r = ok # as" "alloc r = (ok, r\<lparr>r_allocs := as\<rparr>)"
  by (cases "r_allocs r") (auto simp: alloc_def)

lemma alloc_frame [rl_frame]:
  "alloc r = (ok, r') \<Longrightarrow> r' = r\<lparr>r_allocs := r_allocs r'\<rparr>"
  by (auto simp: alloc_def split: list.splits)

lemma alloc_ok_no_failures:
  "alloc r = (ok, r') \<Longrightarrow> False \<notin> set (r_allocs r) \<Longrightarrow> ok \<and> False \<notin> set (r_allocs r')"
  by (auto simp: alloc_def split: list.splits)

lemma pool_add_nth [simp]: "pool_add b r = (a, r') \<Longrightarrow> r_pool r' ! a = b"
  by (auto simp: pool_add_def)

text \<open>The part of a request that straight-line code with allocations, buffers and effects leaves
  alone: the context, the upstream, the marker and the response headers.\<close>

definition same_core :: "request \<Rightarrow> request \<Rightarrow> bool" where
  "same_core r r' \<longleftrightarrow> r_ctx r' = r_ctx r \<and> r_u r' = r_u r \<and> r_done r' = r_done r
     \<and> r_main_count r' = r_main_count r \<and> r_headers_out r' = r_headers_out r \<and> r_msec r' = r_msec r
     \<and> r_tcp_nodelay_ok r' = r_tcp_nodelay_ok r \<and> r_flush_ok r' = r_flush_ok r"

lemma same_core_refl [simp, intro]: "same_core r r"
  by (simp add: same_core_def)

lemma same_core_trans: "same_core r r' \<Longrightarrow> same_core r' r'' \<Longrightarrow> same_core r r''"
  by (simp add: same_core_def)

lemma same_core_updates [simp]:
  "same_core r (r'\<lparr>r_pool := p\<rparr>) = same_core r r'"
  "same_core r (r'\<lparr>r_allocs := as\<rparr>) = same_core r r'"
  "same_core r (r'\<lparr>r_cleanups := cs\<rparr>) = same_core r r'"
  "same_core r (emit e r') = same_core r r'"
  by (simp_all add: same_core_def emit_def)

lemma same_core_alloc: "alloc r = (ok, r') \<Longrightarrow> same_core r r'"
  by (auto simp: alloc_def split: list.splits)

lemma same_core_fields:
  assumes "same_core r r'"
  shows "r_ctx r' = r_ctx r" "r_u r' = r_u r" "r_headers_out r' = r_headers_out r"
  using assms by (simp_all add: same_core_def)

section \<open>A concrete instance\<close>

text \<open>A platform, a zone, a location and an idle request on which the theorems are instantiated.\<close>

definition ascii_platform :: platform where
  "ascii_platform = \<lparr>p_sprintf_ui = (\<lambda>v. dec (unat v)), p_complex_value = (\<lambda>n. Some [digit n]),
     p_keeps_connection = (\<lambda>u. u_keepalive u)\<rparr>"

definition sample_zone :: zone where
  "sample_zone = \<lparr>z_name = ''api'', z_key = 7, z_requests = 10, z_period = 60, z_burst = 5,
     z_algo = ALGO_CUSTOM, z_script_path = ''/s.lua'', z_script_body = ''return 1'', z_script_sha = ''abc''\<rparr>"

definition sample_lc :: loc_conf where
  "sample_lc = \<lparr>lc_zone_name = ''api'', lc_zone = Some sample_zone, lc_burst = CONF_UNSET,
     lc_upstream = Some \<lparr>us_host = ''redis'', us_port = 6379\<rparr>, lc_connect_timeout = 1000,
     lc_send_timeout = 1000, lc_read_timeout = 1000, lc_buffer_size = 4096, lc_complex_target = None,
     lc_password = ''pw'', lc_database = 2, lc_enable_headers = 1, lc_status_code = 429,
     lc_limit_log_level = 4, lc_on_error = ON_ERROR_DENY, lc_prefix = [], lc_quantity = 1\<rparr>"

definition sample_conn :: conn where
  "sample_conn = \<lparr>c_recv = [], c_send = [], c_rd_ready = True, c_rd_eof = False, c_rd_error = False,
     c_rd_timedout = False, c_rd_active = True, c_rd_timer_set = True, c_rd_event_ok = True,
     c_wr_timedout = False, c_wr_timer_set = False, c_wr_event_ok = True, c_so_error = False,
     c_has_pool = True, c_sent = 0\<rparr>"

definition sample_upstream :: upstream where
  "sample_upstream = \<lparr>u_cleanup = True, u_resolving = False, u_status = 0, u_response_time = -1,
     u_header_time = -1, u_bytes_received = 0, u_bytes_sent = 0, u_response_length = 0, u_start_time = 0,
     u_pipe = None, u_peer_free = True, u_peer_sockaddr = True, u_conn = Some sample_conn,
     u_start_null = True, u_buffer = empty_buf, u_length = 0, u_keepalive = False, u_request_sent = True,
     u_request_bufs = [], u_out_bufs = False, u_busy_bufs = False, u_read_handler = RH_header,
     u_write_handler = WH_stock\<rparr>"

definition sample_ctx :: rl_ctx where
  "sample_ctx = zero_ctx\<lparr>key := ''user:1'', retry_after := -1\<rparr>"

definition sample_request :: request where
  "sample_request = \<lparr>r_pool = [], r_cleanups = [], r_allocs = [], r_ctx = Some sample_ctx, r_done = True,
     r_main_count = 2, r_u = sample_upstream, r_headers_out = [], r_read_event_handler = RR_stock,
     r_write_event_handler = RW_stock, r_tcp_nodelay_ok = True, r_flush_ok = True, r_msec = 5,
     r_effects = []\<rparr>"

lemma decimal_ascii_platform [simp]: "decimal_sprintf ascii_platform"
  by (simp add: decimal_sprintf_def ascii_platform_def)

lemmas sample_defs = ascii_platform_def sample_zone_def sample_lc_def sample_conn_def
  sample_upstream_def sample_ctx_def sample_request_def zero_ctx_def

end
