(* ===== verification/RL_Util.thy ===== *)
theory RL_Util
  imports RL_Types
begin

text \<open>
  The helpers of \<open>src/ngx_http_ratelimit_util.c\<close>: the lookup of an upstream by name at request
  time, the RESP encoder with its exactly sized buffer, and the custom response header.
\<close>

section \<open>Upstream lookup\<close>

definition tolower :: "char \<Rightarrow> char" where
  "tolower c = (if 65 \<le> byte c \<and> byte c \<le> 90 then char_of (byte c + 32) else c)"

text \<open>\<open>ngx_strncasecmp(s, t, n) == 0\<close>: the comparison stops at a NUL byte.  A read past the end of
  a string (the callers never cause one) is a mismatch.\<close>

fun strncasecmp_eq :: "ngx_str \<Rightarrow> ngx_str \<Rightarrow> nat \<Rightarrow> bool" where
  "strncasecmp_eq s t 0 = True"
| "strncasecmp_eq (a # s) (b # t) (Suc n) =
     (if tolower a = tolower b then a = CHR 0x00 \<or> strncasecmp_eq s t n else False)"
| "strncasecmp_eq _ _ (Suc n) = False"

text \<open>\<open>ngx_http_ratelimit_upstream_add\<close> over \<open>umcf->upstreams\<close>; the comparison of
  \<open>default_port\<close> is compiled only for nginx before 1.11.6 and is left out.\<close>

fun upstream_add :: "srv_conf list \<Rightarrow> ngx_str \<Rightarrow> nat \<Rightarrow> srv_conf option" where
  "upstream_add [] host port = None"
| "upstream_add (us # uss) host port =
     (if length (us_host us) \<noteq> length host \<or> \<not> strncasecmp_eq (us_host us) host (length host)
      then upstream_add uss host port
      else if us_port us \<noteq> port then upstream_add uss host port
      else Some us)"

section \<open>The RESP encoder\<close>

text \<open>\<open>ngx_http_ratelimit_get_num_size\<close>: a do-while loop over an unsigned 64-bit number.\<close>

function num_size_loop :: "u64 \<Rightarrow> u64 \<Rightarrow> u64" where
  "num_size_loop i n = (let i' = i div 10; n' = n + 1 in if 0 < i' then num_size_loop i' n' else n')"
  by pat_completeness auto
termination
proof (relation "measure (unat \<circ> fst)", goal_cases)
  case (2 i n i' n')
  then have "0 < unat i div 10" by (simp add: word_less_nat_alt unat_div)
  then have "unat i div 10 < unat i" by (intro div_less_dividend) auto
  with 2 show ?case by (simp add: unat_div)
qed simp

declare num_size_loop.simps [simp del]

definition get_num_size :: "u64 \<Rightarrow> u64" where
  "get_num_size i = num_size_loop i 0"

text \<open>The length of a string as \<open>size_t\<close>.\<close>

definition str_len :: "ngx_str \<Rightarrow> u64" where
  "str_len s = of_nat (length s)"

text \<open>The size the encoder computes before it allocates, and the bytes it then writes.\<close>

fun args_len :: "ngx_str list \<Rightarrow> u64 \<Rightarrow> u64" where
  "args_len [] len = len"
| "args_len (a # argv) len =
     args_len argv (len + 1 + get_num_size (str_len a) + 2 + str_len a + 2)"

definition command_len :: "ngx_str list \<Rightarrow> u64" where
  "command_len argv = args_len argv (1 + get_num_size (of_nat (length argv)) + 2)"

fun args_bytes :: "platform \<Rightarrow> ngx_str list \<Rightarrow> ngx_str" where
  "args_bytes P [] = []"
| "args_bytes P (a # argv) =
     CHR ''$'' # p_sprintf_ui P (str_len a) @ CRLF @ a @ CRLF @ args_bytes P argv"

definition command_bytes :: "platform \<Rightarrow> ngx_str list \<Rightarrow> ngx_str" where
  "command_bytes P argv =
     CHR ''*'' # p_sprintf_ui P (of_nat (length argv)) @ CRLF @ args_bytes P argv"

text \<open>\<open>ngx_http_ratelimit_build_command\<close>: the temporary buffer is added to the pool and its
  address returned.  The bytes are written from \<open>start\<close>; if they are not exactly as many as
  computed the command is refused.\<close>

definition build_command :: "platform \<Rightarrow> request \<Rightarrow> ngx_str list \<Rightarrow> int \<times> nat \<times> request" where
  "build_command P r argv =
     (let len = command_len argv;
          (ok, r) = alloc r
      in if \<not> ok then (NGX_ERROR, 0, r)
         else
           let out = command_bytes P argv;
               b = \<lparr>b_mem = mem_write (replicate (unat len) (CHR 0x00)) 0 out, b_pos = 0, b_last = 0,
                    b_last_buf = False\<rparr>;
               (a, r) = pool_add b r
           in if of_nat (length out) \<noteq> len
              then (NGX_ERROR, a, emit (Log_error ''buffer error'') r)
              else (NGX_OK, a, r\<lparr>r_pool := (r_pool r)[a := b\<lparr>b_last := length out\<rparr>]\<rparr>))"

section \<open>Custom response header\<close>

text \<open>\<open>ngx_http_ratelimit_set_custom_header\<close>: a failed allocation leaves the pushed header
  marked as deleted (\<open>hash = 0\<close>).\<close>

definition set_custom_header :: "platform \<Rightarrow> request \<Rightarrow> ngx_str \<Rightarrow> u64 \<Rightarrow> int \<times> request" where
  "set_custom_header P r k v =
     (let (ok, r) = alloc r
      in if \<not> ok then (NGX_ERROR, r)
         else
           let h = \<lparr>h_key = k, h_value = [], h_lowcase_key = [], h_hash = 1\<rparr>;
               push = (\<lambda>h r. r\<lparr>r_headers_out := r_headers_out r @ [h]\<rparr>);
               (ok, r) = alloc r
           in if \<not> ok then (NGX_ERROR, push (h\<lparr>h_hash := 0\<rparr>) r)
              else
                let h = h\<lparr>h_value := p_sprintf_ui P v\<rparr>;
                    (ok, r) = alloc r
                in if \<not> ok then (NGX_ERROR, push (h\<lparr>h_hash := 0\<rparr>) r)
                   else (NGX_OK, push (h\<lparr>h_lowcase_key := map tolower k\<rparr>) r))"

section \<open>The size computation\<close>

lemma num_size_loop_eq: "num_size_loop i n = n + of_nat (length (dec (unat i)))"
proof (induction i n rule: num_size_loop.induct)
  case (1 i n)
  have div: "unat (i div 10) = unat i div 10" by (simp add: unat_div)
  show ?case
  proof (cases "0 < i div 10")
    case True
    then have "\<not> unat i < 10" by (simp add: word_less_nat_alt div)
    with 1 True show ?thesis
      by (simp add: num_size_loop.simps [of i n] dec.simps [of "unat i"] div Let_def)
  next
    case False
    then have "unat i < 10" by (simp add: word_less_nat_alt div div_eq_0_iff)
    with False show ?thesis
      by (simp add: num_size_loop.simps [of i n] dec.simps [of "unat i"] Let_def)
  qed
qed

lemma get_num_size_eq: "get_num_size i = of_nat (length (dec (unat i)))"
  by (simp add: get_num_size_def num_size_loop_eq)

lemma args_len_eq:
  "decimal_sprintf P \<Longrightarrow> args_len argv len = len + of_nat (length (args_bytes P argv))"
  by (induction argv arbitrary: len) (simp_all add: get_num_size_eq decimal_sprintf_def str_len_def)

lemma command_len_eq:
  "decimal_sprintf P \<Longrightarrow> command_len argv = of_nat (length (command_bytes P argv))"
  by (simp add: command_len_def args_len_eq command_bytes_def get_num_size_eq decimal_sprintf_def)

section \<open>The encoded command and its decoding\<close>

text \<open>A reference decoder for a RESP array of bulk strings, as the server reads it: it returns the
  arguments and what follows the command.\<close>

definition decode_num :: "ngx_str \<Rightarrow> (nat \<times> ngx_str) option" where
  "decode_num s =
     (if takeWhile is_digit s = [] then None
      else map_option (Pair (dec_value (takeWhile is_digit s))) (strict_eol (dropWhile is_digit s)))"

fun decode_bulks :: "nat \<Rightarrow> ngx_str \<Rightarrow> (ngx_str list \<times> ngx_str) option" where
  "decode_bulks 0 s = Some ([], s)"
| "decode_bulks (Suc n) [] = None"
| "decode_bulks (Suc n) (c # s) =
     (if c \<noteq> CHR ''$'' then None
      else Option.bind (decode_num s) (\<lambda>(l, t).
             if length t < l then None
             else Option.bind (strict_eol (drop l t)) (\<lambda>t'.
                    map_option (\<lambda>(as, rest). (take l t # as, rest)) (decode_bulks n t'))))"

definition decode_command :: "ngx_str \<Rightarrow> (ngx_str list \<times> ngx_str) option" where
  "decode_command s =
     (case s of [] \<Rightarrow> None
      | c # t \<Rightarrow> if c \<noteq> CHR ''*'' then None
                else Option.bind (decode_num t) (\<lambda>(n, t). decode_bulks n t))"

lemma decode_num_dec: "decode_num (dec n @ CR # LF # s) = Some (n, s)"
  by (simp add: decode_num_def dec_digits)

lemma str_len_bound: "length s < 2 ^ 64 \<Longrightarrow> unat (str_len s) = length s"
  by (simp add: str_len_def unat_of_nat_u64)

lemma decode_bulks_args:
  assumes "decimal_sprintf P" and "\<forall>a \<in> set argv. length a < 2 ^ 64"
  shows "decode_bulks (length argv) (args_bytes P argv @ rest) = Some (argv, rest)"
  using assms(2)
proof (induction argv)
  case (Cons a argv)
  then have "p_sprintf_ui P (str_len a) = dec (length a)"
    using assms(1) by (simp add: decimal_sprintf_def str_len_bound)
  with Cons show ?case by (simp add: decode_num_dec)
qed simp

lemma args_bytes_longer: "a \<in> set argv \<Longrightarrow> length a \<le> length (args_bytes P argv)"
  by (induction argv) auto

lemma args_bytes_count: "length argv \<le> length (args_bytes P argv)"
  by (induction argv) auto

lemma decode_command_bytes:
  assumes "decimal_sprintf P" and "length (command_bytes P argv) < 2 ^ 64"
  shows "decode_command (command_bytes P argv @ rest) = Some (argv, rest)"
proof -
  have "length (args_bytes P argv) < 2 ^ 64"
    using assms(2) by (simp add: command_bytes_def)
  then have "\<forall>a \<in> set argv. length a < 2 ^ 64" and n: "length argv < 2 ^ 64"
    using args_bytes_longer [of _ argv P] args_bytes_count [of argv P] by (meson le_less_trans)+
  then have "decode_bulks (length argv) (args_bytes P argv @ rest) = Some (argv, rest)"
    using assms(1) by (intro decode_bulks_args)
  moreover have "p_sprintf_ui P (of_nat (length argv)) = dec (length argv)"
    using assms(1) n by (simp add: decimal_sprintf_def unat_of_nat_u64)
  ultimately show ?thesis
    by (simp add: decode_command_def command_bytes_def decode_num_dec)
qed

text \<open>The buffer \<open>build_command\<close> leaves in the pool: a frame filled to its end.\<close>

definition frame_buf :: "ngx_str \<Rightarrow> ngx_buf" where
  "frame_buf s = \<lparr>b_mem = s, b_pos = 0, b_last = length s, b_last_buf = False\<rparr>"

lemma b_data_frame_buf [simp]: "b_data (frame_buf s) = s"
  by (simp add: b_data_def frame_buf_def span_of_def)

lemma build_command_eq:
  assumes "decimal_sprintf P" and "length (command_bytes P argv) < 2 ^ 64"
  shows "build_command P r argv =
    (if fst (alloc r)
     then (NGX_OK, length (r_pool (snd (alloc r))),
           (snd (alloc r))\<lparr>r_pool := r_pool (snd (alloc r)) @ [frame_buf (command_bytes P argv)]\<rparr>)
     else (NGX_ERROR, 0, snd (alloc r)))"
proof -
  have "unat (command_len argv) = length (command_bytes P argv)"
    using assms by (simp add: command_len_eq unat_of_nat_u64)
  then show ?thesis
    using command_len_eq [OF assms(1), of argv]
    by (cases "alloc r") (simp add: build_command_def pool_add_def frame_buf_def mem_write_def Let_def)
qed

text \<open>C17: The RESP encoder is correct and cannot be injected into: unless the allocation fails,
  \<open>build_command\<close> succeeds (its self-check never fires), fills the buffer it sized exactly to its
  end, and the bytes, with anything pipelined after them, decode to exactly the given arguments,
  whatever bytes those contain (keys with CR, LF, \<open>*\<close> or \<open>$\<close> included).\<close>

theorem build_command_correct:
  assumes "decimal_sprintf P" and "length (command_bytes P argv) < 2 ^ 64"
    and "build_command P r argv = (rc, a, r')"
  shows "if fst (alloc r)
    then rc = NGX_OK \<and> a < length (r_pool r') \<and> b_pos (r_pool r' ! a) = 0
      \<and> b_last (r_pool r' ! a) = b_end (r_pool r' ! a)
      \<and> (\<forall>rest. decode_command (b_data (r_pool r' ! a) @ rest) = Some (argv, rest))
      \<and> r_effects r' = r_effects r
    else rc = NGX_ERROR \<and> r_pool r' = r_pool r"
proof -
  have "r_pool (snd (alloc r)) = r_pool r" "r_effects (snd (alloc r)) = r_effects r"
    by (simp_all add: alloc_def split: list.split)
  with assms(3) show ?thesis
    unfolding build_command_eq [OF assms(1,2)]
    by (auto simp: decode_command_bytes [OF assms(1,2)] nth_append) (simp_all add: frame_buf_def)
qed

theorem build_command_correct_witness:
  "\<exists>a r. build_command ascii_platform sample_request [''GET'', [CR, LF]] = (NGX_OK, a, r)
     \<and> (\<forall>rest. decode_command (b_data (r_pool r ! a) @ rest) = Some ([''GET'', [CR, LF]], rest))"
proof -
  have len: "length (command_bytes ascii_platform [''GET'', [CR, LF]]) < 2 ^ 64"
    by (simp add: command_bytes_def str_len_def ascii_platform_def dec.simps)
  obtain rc a r where b: "build_command ascii_platform sample_request [''GET'', [CR, LF]] = (rc, a, r)"
    by (cases "build_command ascii_platform sample_request [''GET'', [CR, LF]]")
  have "fst (alloc sample_request)" by (simp add: alloc_def sample_request_def)
  with build_command_correct [OF decimal_ascii_platform len b] b show ?thesis by auto
qed

section \<open>Upstream lookup\<close>

lemma tolower_NUL: "tolower c = CHR 0x00 \<longleftrightarrow> c = CHR 0x00"
proof -
  have "byte (char_of (byte c + 32)) = byte c + 32" if "byte c \<le> 90"
    using that by (simp add: byte_def)
  then show ?thesis
    by (auto simp: tolower_def byte_def dest: arg_cong [of _ _ byte])
qed

lemma strncasecmp_eq_iff:
  "length s = length t \<Longrightarrow> CHR 0x00 \<notin> set t \<Longrightarrow>
   strncasecmp_eq s t (length t) \<longleftrightarrow> map tolower s = map tolower t"
proof (induction s t rule: list_induct2)
  case (Cons a s b t)
  then have "tolower b \<noteq> CHR 0x00" using tolower_NUL [of b] by auto
  then have "tolower a = tolower b \<Longrightarrow> a \<noteq> CHR 0x00" using tolower_NUL [of a] by auto
  with Cons show ?case by auto
qed simp

text \<open>C35: The run-time lookup of a \<open>ratelimit_pass\<close> target returns the first configured
  upstream with the same port whose host equals the target up to ASCII case, and none if there is
  no such upstream.\<close>

theorem upstream_add_first:
  assumes "CHR 0x00 \<notin> set host"
  shows "upstream_add uss host port =
    List.find (\<lambda>us. map tolower (us_host us) = map tolower host \<and> us_port us = port) uss"
proof (induction uss)
  case (Cons us uss)
  have "length (us_host us) = length host \<and> strncasecmp_eq (us_host us) host (length host)
      \<longleftrightarrow> map tolower (us_host us) = map tolower host"
    using strncasecmp_eq_iff [of "us_host us" host] assms map_eq_imp_length_eq by blast
  with Cons.IH show ?case by auto
qed simp

theorem upstream_add_first_witness:
  "upstream_add [\<lparr>us_host = ''redis'', us_port = 1\<rparr>, \<lparr>us_host = ''REDIS'', us_port = 0\<rparr>] ''Redis'' 0 =
     Some \<lparr>us_host = ''REDIS'', us_port = 0\<rparr>"
  by (subst upstream_add_first) (simp_all add: tolower_def byte_def char_of_def bit_Suc bit_Suc_0_iff)

section \<open>What the encoder leaves alone\<close>

lemma same_core_build_command: "build_command P r argv = (rc, a, r') \<Longrightarrow> same_core r r'"
  by (auto simp: build_command_def pool_add_def Let_def split: prod.splits if_splits
      dest: same_core_alloc)

end
