(* ===== verification/RL_Script.thy ===== *)
theory RL_Script
  imports RL_Types
begin

text \<open>
  The script table of \<open>src/ngx_http_ratelimit_script.c\<close>: the text of the four built-in Lua
  scripts, the table indexed by algorithm that \<open>ngx_http_ratelimit_script_init\<close> fills, the SHA1
  of a body, and the loading of a custom script file.  The digest and its hexadecimal dump are
  services of nginx, and so is the file system; both are arguments.
\<close>

section \<open>The built-in scripts\<close>

definition fixed_window_lua :: ngx_str where
  "fixed_window_lua =
     ''local limit = tonumber(ARGV[1])'' @ [LF] @
     ''local window = tonumber(ARGV[2])'' @ [LF] @
     ''local quantity = tonumber(ARGV[3])'' @ [LF] @
     ''local current = tonumber(redis.call('GET', KEYS[1]) or '0')'' @ [LF] @
     ''if quantity == 0 then'' @ [LF] @
     ''  local ttl = redis.call('TTL', KEYS[1])'' @ [LF] @
     ''  if ttl < 0 then ttl = 0 end'' @ [LF] @
     ''  local remaining = limit - current'' @ [LF] @
     ''  if remaining < 0 then remaining = 0 end'' @ [LF] @
     ''  local status = 0'' @ [LF] @
     ''  if current >= limit then status = 1 end'' @ [LF] @
     ''  return {status, limit, remaining, -1, ttl}'' @ [LF] @
     ''end'' @ [LF] @
     ''if current + quantity > limit then'' @ [LF] @
     ''  local ttl = redis.call('TTL', KEYS[1])'' @ [LF] @
     ''  if ttl < 0 then ttl = window end'' @ [LF] @
     ''  local remaining = limit - current'' @ [LF] @
     ''  if remaining < 0 then remaining = 0 end'' @ [LF] @
     ''  local retry_after = ttl'' @ [LF] @
     ''  if retry_after < 1 then retry_after = 1 end'' @ [LF] @
     ''  return {1, limit, remaining, retry_after, ttl}'' @ [LF] @
     ''end'' @ [LF] @
     ''local newval = redis.call('INCRBY', KEYS[1], quantity)'' @ [LF] @
     ''local ttl'' @ [LF] @
     ''if newval == quantity then'' @ [LF] @
     ''  redis.call('EXPIRE', KEYS[1], window)'' @ [LF] @
     ''  ttl = window'' @ [LF] @
     ''else'' @ [LF] @
     ''  ttl = redis.call('TTL', KEYS[1])'' @ [LF] @
     ''  if ttl < 0 then'' @ [LF] @
     ''    redis.call('EXPIRE', KEYS[1], window)'' @ [LF] @
     ''    ttl = window'' @ [LF] @
     ''  end'' @ [LF] @
     ''end'' @ [LF] @
     ''local remaining = limit - newval'' @ [LF] @
     ''if remaining < 0 then remaining = 0 end'' @ [LF] @
     ''return {0, limit, remaining, -1, ttl}'' @ [LF]"

definition token_bucket_lua :: ngx_str where
  "token_bucket_lua =
     ''local requests = tonumber(ARGV[1])'' @ [LF] @
     ''local period = tonumber(ARGV[2])'' @ [LF] @
     ''local burst = tonumber(ARGV[3])'' @ [LF] @
     ''local quantity = tonumber(ARGV[4])'' @ [LF] @
     ''local capacity = requests + burst'' @ [LF] @
     ''local rate = requests / period'' @ [LF] @
     ''local t = redis.call('TIME')'' @ [LF] @
     ''local now = tonumber(t[1]) + tonumber(t[2]) / 1000000'' @ [LF] @
     ''local data = redis.call('HMGET', KEYS[1], 'tokens', 'ts')'' @ [LF] @
     ''local tokens = tonumber(data[1])'' @ [LF] @
     ''local ts = tonumber(data[2])'' @ [LF] @
     ''if tokens == nil then'' @ [LF] @
     ''  tokens = capacity'' @ [LF] @
     ''  ts = now'' @ [LF] @
     ''end'' @ [LF] @
     ''local elapsed = now - ts'' @ [LF] @
     ''if elapsed > 0 then'' @ [LF] @
     ''  tokens = tokens + elapsed * rate'' @ [LF] @
     ''  if tokens > capacity then tokens = capacity end'' @ [LF] @
     ''  ts = now'' @ [LF] @
     ''end'' @ [LF] @
     ''local ttl = math.ceil(capacity / rate)'' @ [LF] @
     ''if ttl < 1 then ttl = 1 end'' @ [LF] @
     ''local reset = math.ceil((capacity - tokens) / rate)'' @ [LF] @
     ''if reset < 0 then reset = 0 end'' @ [LF] @
     ''if quantity == 0 then'' @ [LF] @
     ''  local status = 0'' @ [LF] @
     ''  if tokens < 1 then status = 1 end'' @ [LF] @
     ''  return {status, capacity, math.floor(tokens), -1, reset}'' @ [LF] @
     ''end'' @ [LF] @
     ''if tokens >= quantity then'' @ [LF] @
     ''  tokens = tokens - quantity'' @ [LF] @
     ''  redis.call('HSET', KEYS[1], 'tokens', string.format('%.6f', tokens),'' @
     '' 'ts', string.format('%.6f', ts))'' @ [LF] @
     ''  redis.call('EXPIRE', KEYS[1], ttl)'' @ [LF] @
     ''  reset = math.ceil((capacity - tokens) / rate)'' @ [LF] @
     ''  if reset < 0 then reset = 0 end'' @ [LF] @
     ''  return {0, capacity, math.floor(tokens), -1, reset}'' @ [LF] @
     ''end'' @ [LF] @
     ''redis.call('HSET', KEYS[1], 'tokens', string.format('%.6f', tokens),'' @
     '' 'ts', string.format('%.6f', ts))'' @ [LF] @
     ''redis.call('EXPIRE', KEYS[1], ttl)'' @ [LF] @
     ''local retry_after = math.ceil((quantity - tokens) / rate)'' @ [LF] @
     ''if retry_after < 1 then retry_after = 1 end'' @ [LF] @
     ''return {1, capacity, math.floor(tokens), retry_after, reset}'' @ [LF]"

definition gcra_lua :: ngx_str where
  "gcra_lua =
     ''local requests = tonumber(ARGV[1])'' @ [LF] @
     ''local period = tonumber(ARGV[2])'' @ [LF] @
     ''local burst = tonumber(ARGV[3])'' @ [LF] @
     ''local quantity = tonumber(ARGV[4])'' @ [LF] @
     ''local emission = period / requests'' @ [LF] @
     ''local t = redis.call('TIME')'' @ [LF] @
     ''local now = tonumber(t[1]) + tonumber(t[2]) / 1000000'' @ [LF] @
     ''local tat = tonumber(redis.call('GET', KEYS[1]))'' @ [LF] @
     ''if tat == nil then tat = now end'' @ [LF] @
     ''if tat < now then tat = now end'' @ [LF] @
     ''local limit = burst + 1'' @ [LF] @
     ''local horizon = emission * (burst + 1)'' @ [LF] @
     ''if quantity == 0 then'' @ [LF] @
     ''  -- peek: report the current state without advancing the TAT, so a'' @ [LF] @
     ''  -- fresh limiter reads full capacity and reset 0, like the other algos'' @ [LF] @
     ''  local avail = math.floor((now - (tat - horizon)) / emission)'' @ [LF] @
     ''  if avail > limit then avail = limit end'' @ [LF] @
     ''  local status = 0'' @ [LF] @
     ''  if avail < 1 then status = 1 end'' @ [LF] @
     ''  local reset = math.ceil(tat - now)'' @ [LF] @
     ''  if reset < 0 then reset = 0 end'' @ [LF] @
     ''  return {status, limit, avail, -1, reset}'' @ [LF] @
     ''end'' @ [LF] @
     ''local new_tat = tat + emission * quantity'' @ [LF] @
     ''local allow_at = new_tat - horizon'' @ [LF] @
     ''local diff = now - allow_at'' @ [LF] @
     ''if diff < 0 then'' @ [LF] @
     ''  local retry_after = math.ceil(-diff)'' @ [LF] @
     ''  if retry_after < 1 then retry_after = 1 end'' @ [LF] @
     ''  local reset = math.ceil(tat - now)'' @ [LF] @
     ''  if reset < 0 then reset = 0 end'' @ [LF] @
     ''  return {1, limit, 0, retry_after, reset}'' @ [LF] @
     ''end'' @ [LF] @
     ''local remaining = math.floor(diff / emission)'' @ [LF] @
     ''local reset = math.ceil(new_tat - now)'' @ [LF] @
     ''if reset < 0 then reset = 0 end'' @ [LF] @
     ''redis.call('SET', KEYS[1], string.format('%.6f', new_tat))'' @ [LF] @
     ''local ttl = math.ceil(new_tat - now)'' @ [LF] @
     ''if ttl < 1 then ttl = 1 end'' @ [LF] @
     ''redis.call('EXPIRE', KEYS[1], ttl)'' @ [LF] @
     ''return {0, limit, remaining, -1, reset}'' @ [LF]"

definition sliding_window_lua :: ngx_str where
  "sliding_window_lua =
     ''local limit = tonumber(ARGV[1])'' @ [LF] @
     ''local window = tonumber(ARGV[2])'' @ [LF] @
     ''local quantity = tonumber(ARGV[3])'' @ [LF] @
     ''local t = redis.call('TIME')'' @ [LF] @
     ''local now = tonumber(t[1]) + tonumber(t[2]) / 1000000'' @ [LF] @
     ''local cur_win = math.floor(now / window)'' @ [LF] @
     ''local elapsed = now - cur_win * window'' @ [LF] @
     ''local weight = (window - elapsed) / window'' @ [LF] @
     ''local data = redis.call('HMGET', KEYS[1], 'c', 'w', 'p')'' @ [LF] @
     ''local c = tonumber(data[1])'' @ [LF] @
     ''local w = tonumber(data[2])'' @ [LF] @
     ''local p = tonumber(data[3])'' @ [LF] @
     ''if c == nil then'' @ [LF] @
     ''  c = 0'' @ [LF] @
     ''  w = cur_win'' @ [LF] @
     ''  p = 0'' @ [LF] @
     ''end'' @ [LF] @
     ''if w == cur_win - 1 then'' @ [LF] @
     ''  p = c'' @ [LF] @
     ''  c = 0'' @ [LF] @
     ''  w = cur_win'' @ [LF] @
     ''elseif w ~= cur_win then'' @ [LF] @
     ''  p = 0'' @ [LF] @
     ''  c = 0'' @ [LF] @
     ''  w = cur_win'' @ [LF] @
     ''end'' @ [LF] @
     ''local est = p * weight + c'' @ [LF] @
     ''local remaining = math.floor(limit - est)'' @ [LF] @
     ''if remaining < 0 then remaining = 0 end'' @ [LF] @
     ''local win_remaining = math.ceil(window - elapsed)'' @ [LF] @
     ''if win_remaining < 0 then win_remaining = 0 end'' @ [LF] @
     ''if quantity == 0 then'' @ [LF] @
     ''  local status = 0'' @ [LF] @
     ''  if est >= limit then status = 1 end'' @ [LF] @
     ''  local reset = 0'' @ [LF] @
     ''  if c > 0 or p > 0 then reset = win_remaining end'' @ [LF] @
     ''  return {status, limit, remaining, -1, reset}'' @ [LF] @
     ''end'' @ [LF] @
     ''if est + quantity > limit then'' @ [LF] @
     ''  local headroom = limit - quantity - c'' @ [LF] @
     ''  local retry_after'' @ [LF] @
     ''  if p > 0 and headroom >= 0 then'' @ [LF] @
     ''    retry_after = math.ceil((window - elapsed) - headroom * window / p)'' @ [LF] @
     ''  else'' @ [LF] @
     ''    retry_after = win_remaining'' @ [LF] @
     ''  end'' @ [LF] @
     ''  if retry_after < 1 then retry_after = 1 end'' @ [LF] @
     ''  return {1, limit, remaining, retry_after, win_remaining}'' @ [LF] @
     ''end'' @ [LF] @
     ''c = c + quantity'' @ [LF] @
     ''redis.call('HSET', KEYS[1], 'c', c, 'w', w, 'p', p)'' @ [LF] @
     ''redis.call('EXPIRE', KEYS[1], window * 2)'' @ [LF] @
     ''est = p * weight + c'' @ [LF] @
     ''remaining = math.floor(limit - est)'' @ [LF] @
     ''if remaining < 0 then remaining = 0 end'' @ [LF] @
     ''return {0, limit, remaining, -1, win_remaining}'' @ [LF]"

section \<open>The table\<close>

record script =
  s_body :: ngx_str
  s_sha :: ngx_str

text \<open>The enumeration value of an algorithm, the index into the table.\<close>

fun algo_index :: "algo \<Rightarrow> nat" where
  "algo_index ALGO_FIXED_WINDOW = 0"
| "algo_index ALGO_TOKEN_BUCKET = 1"
| "algo_index ALGO_GCRA = 2"
| "algo_index ALGO_SLIDING_WINDOW = 3"
| "algo_index ALGO_CUSTOM = 4"

text \<open>\<open>ngx_sha1\<close> and \<open>ngx_hex_dump\<close> of nginx.\<close>

record digest =
  d_sha1 :: "ngx_str \<Rightarrow> ngx_str"
  d_hex_dump :: "ngx_str \<Rightarrow> ngx_str"

text \<open>\<open>ngx_http_ratelimit_script_sha1\<close>; the length field is set to 40 whatever the dump wrote.\<close>

definition script_sha1 :: "digest \<Rightarrow> ngx_str \<Rightarrow> ngx_str" where
  "script_sha1 D body = take 40 (d_hex_dump D (take 20 (d_sha1 D body)))"

text \<open>The static table, and \<open>ngx_http_ratelimit_script_init\<close>: the four bodies are set and the
  loop computes the digest of every entry.\<close>

definition scripts_static :: "script list" where
  "scripts_static = replicate 4 \<lparr>s_body = [], s_sha = []\<rparr>"

definition set_body :: "algo \<Rightarrow> ngx_str \<Rightarrow> script list \<Rightarrow> script list" where
  "set_body a body t = t[algo_index a := (t ! algo_index a)\<lparr>s_body := body\<rparr>]"

fun init_shas :: "digest \<Rightarrow> nat \<Rightarrow> nat \<Rightarrow> script list \<Rightarrow> script list" where
  "init_shas D i 0 t = t"
| "init_shas D i (Suc k) t =
     init_shas D (Suc i) k (t[i := (t ! i)\<lparr>s_sha := script_sha1 D (s_body (t ! i))\<rparr>])"

definition script_init :: "digest \<Rightarrow> script list \<Rightarrow> script list" where
  "script_init D t =
     (let t = set_body ALGO_FIXED_WINDOW fixed_window_lua t;
          t = set_body ALGO_TOKEN_BUCKET token_bucket_lua t;
          t = set_body ALGO_GCRA gcra_lua t;
          t = set_body ALGO_SLIDING_WINDOW sliding_window_lua t
      in init_shas D 0 (length t) t)"

definition script_body :: "script list \<Rightarrow> algo \<Rightarrow> ngx_str" where
  "script_body t a = s_body (t ! algo_index a)"

definition script_sha :: "script list \<Rightarrow> algo \<Rightarrow> ngx_str" where
  "script_sha t a = s_sha (t ! algo_index a)"

section \<open>Reading a custom script\<close>

text \<open>The file system as the loader sees it: the name resolved against the nginx prefix, and for a
  file that can be opened what \<open>fstat\<close>, the allocation and the read return.\<close>

record script_file =
  fl_info_ok :: bool
  fl_regular :: bool
  fl_size :: nat
  fl_palloc_ok :: bool
  fl_read :: "nat \<Rightarrow> ngx_str option"

record files =
  fs_full_name :: "ngx_str \<Rightarrow> ngx_str option"
  fs_open :: "ngx_str \<Rightarrow> script_file option"

datatype file_op = Open_file ngx_str | Close_file

text \<open>\<open>ngx_http_ratelimit_script_read_file\<close>: the return code, \<open>*out\<close> where it is set, and the
  descriptor operations.\<close>

definition script_read_file :: "files \<Rightarrow> ngx_str \<Rightarrow> int \<times> ngx_str option \<times> file_op list" where
  "script_read_file F path =
     (case fs_full_name F path of
        None \<Rightarrow> (NGX_ERROR, None, [])
      | Some name \<Rightarrow>
          (case fs_open F name of
             None \<Rightarrow> (NGX_ERROR, None, [])
           | Some f \<Rightarrow>
               let failed = (NGX_ERROR, None, [Open_file name, Close_file]) in
               if \<not> fl_info_ok f then failed
               else if \<not> fl_regular f then failed
               else if fl_size f = 0 then failed
               else if MAX_SCRIPT_LEN < fl_size f then failed
               else if \<not> fl_palloc_ok f then failed
               else case fl_read f (fl_size f) of
                      None \<Rightarrow> failed
                    | Some buf \<Rightarrow>
                        if length buf \<noteq> fl_size f then failed
                        else (NGX_OK, Some buf, [Open_file name, Close_file])))"

section \<open>Lemmas\<close>

text \<open>C34: Loading a custom script: it succeeds only with a body of 1 to 65536 bytes that is all of
  the file, it yields no body on any failure, and whenever the file was opened it is closed exactly
  once, on every path.\<close>

theorem script_read_file_result:
  assumes "script_read_file F path = (rc, out, ops)"
  shows "(rc = NGX_OK \<longleftrightarrow> (\<exists>body. out = Some body \<and> 0 < length body \<and> length body \<le> MAX_SCRIPT_LEN
            \<and> (\<exists>name f. fs_full_name F path = Some name \<and> fs_open F name = Some f \<and> fl_regular f
                 \<and> length body = fl_size f \<and> fl_read f (fl_size f) = Some body)))
    \<and> (rc \<noteq> NGX_OK \<longrightarrow> out = None \<and> rc = NGX_ERROR)
    \<and> (ops = [] \<or> (\<exists>name. fs_full_name F path = Some name \<and> ops = [Open_file name, Close_file]))"
  using assms by (auto simp: script_read_file_def Let_def split: option.splits if_splits)

theorem script_read_file_result_witness:
  "\<exists>rc out ops. script_read_file \<lparr>fs_full_name = Some, fs_open = (\<lambda>_. None)\<rparr> ''x.lua'' = (rc, out, ops)
     \<and> rc = NGX_ERROR \<and> out = None"
proof -
  let ?F = "\<lparr>fs_full_name = Some, fs_open = (\<lambda>_. None)\<rparr> :: files"
  obtain rc out ops where "script_read_file ?F ''x.lua'' = (rc, out, ops)"
    by (cases "script_read_file ?F ''x.lua''")
  with script_read_file_result [of ?F "''x.lua''" rc out ops] show ?thesis by auto
qed

end
