(* ===== verification/RL_Reply.thy ===== *)
theory RL_Reply
  imports RL_Types
begin

text \<open>
  The reply parser, \<open>src/ngx_http_ratelimit_reply.c\<close>: the digit accumulator with its overflow
  guard, the byte-at-a-time state machine of \<open>ngx_http_ratelimit_process_reply\<close>, and the loop
  around it.  The byte \<open>*\<close> that opens the multi-bulk reply has already been consumed by
  \<open>process_header\<close>.
\<close>

section \<open>The digit accumulator\<close>

text \<open>\<open>None\<close> is \<open>NGX_ERROR\<close>.  \<open>ch - '0'\<close> is converted to \<open>ngx_uint_t\<close>, so it wraps
  for a byte below \<open>'0'\<close>.\<close>

definition accum_digit :: "u64 \<Rightarrow> char \<Rightarrow> u64 option" where
  "accum_digit val ch =
     (let d = of_nat (byte ch) - 48 in
      if (NGX_MAX_INT - d) div 10 < val then None else Some (val * 10 + d))"

section \<open>One byte of the state machine\<close>

text \<open>The body of the loop either falls through to the next byte, returns \<open>NGX_ERROR\<close> or
  jumps to \<open>done\<close>.  The parse state is the local variable \<open>state\<close> with the context and the
  upstream it writes to; an error keeps the writes made so far, as the C code does.\<close>

datatype 'a outcome = Next 'a | Fail 'a | Done 'a

type_synonym parse_state = "sw \<times> rl_ctx \<times> upstream"

fun reply_step :: "char \<Rightarrow> parse_state \<Rightarrow> parse_state outcome" where
  "reply_step ch (sw_start, c, u) =
     (if ch = CHR ''5'' then Next (sw_CRLF1, c, u) else Fail (sw_start, c, u))"
| "reply_step ch (sw_CRLF1, c, u) =
     (if ch = CR then Next (sw_CRLF1, c, u)
      else if ch = LF then Next (sw_ARG1, c, u)
      else Fail (sw_CRLF1, c, u))"
| "reply_step ch (sw_ARG1, c, u) =
     (if ch = CHR '':'' then Next (sw_ARG1, c, u)
      else if ch = CHR ''0'' then Next (sw_CRLF2, c, u\<lparr>u_status := ST_OK\<rparr>)
      else if ch = CHR ''1'' then Next (sw_CRLF2, c, u\<lparr>u_status := ST_TOO_MANY_REQUESTS\<rparr>)
      else Fail (sw_ARG1, c, u))"
| "reply_step ch (sw_CRLF2, c, u) =
     (if ch = CR then Next (sw_CRLF2, c, u)
      else if ch = LF then Next (sw_ARG2, c, u)
      else Fail (sw_CRLF2, c, u))"
| "reply_step ch (sw_ARG2, c, u) =
     (if ch = CHR '':'' then Next (sw_ARG2, c, u)
      else if ch = CR then Next (sw_LF1, c, u)
      else if \<not> is_digit ch then Fail (sw_ARG2, c, u)
      else case accum_digit (limit c) ch of
             None \<Rightarrow> Fail (sw_ARG2, c, u)
           | Some v \<Rightarrow> Next (sw_ARG2, c\<lparr>limit := v\<rparr>, u))"
| "reply_step ch (sw_LF1, c, u) =
     (if ch = LF then Next (sw_ARG3, c, u) else Fail (sw_LF1, c, u))"
| "reply_step ch (sw_ARG3, c, u) =
     (if ch = CHR '':'' then Next (sw_ARG3, c, u)
      else if ch = CR then Next (sw_LF2, c, u)
      else if \<not> is_digit ch then Fail (sw_ARG3, c, u)
      else case accum_digit (remaining c) ch of
             None \<Rightarrow> Fail (sw_ARG3, c, u)
           | Some v \<Rightarrow> Next (sw_ARG3, c\<lparr>remaining := v\<rparr>, u))"
| "reply_step ch (sw_LF2, c, u) =
     (if ch = LF then Next (sw_ARG4, c, u) else Fail (sw_LF2, c, u))"
| "reply_step ch (sw_ARG4, c, u) =
     (if ch = CHR '':'' then Next (sw_ARG4, c, u)
      else if ch = CHR ''-'' then Next (sw_ALLOWED, c, u)
      else if ch = CR then Next (sw_LF3, c, u)
      else if \<not> is_digit ch then Fail (sw_ARG4, c, u)
      else let c' = (if sint (retry_after c) < 0 then c\<lparr>retry_after := 0\<rparr> else c) in
           case accum_digit (retry_after c') ch of
             None \<Rightarrow> Fail (sw_ARG4, c', u)
           | Some v \<Rightarrow> Next (sw_ARG4, c'\<lparr>retry_after := v\<rparr>, u))"
| "reply_step ch (sw_ALLOWED, c, u) =
     (if ch = CHR ''1'' then Next (sw_ALLOWED, c\<lparr>retry_after := -1\<rparr>, u)
      else if ch = CR then Next (sw_LF3, c, u)
      else Fail (sw_ALLOWED, c, u))"
| "reply_step ch (sw_LF3, c, u) =
     (if ch = LF then Next (sw_ARG5, c, u) else Fail (sw_LF3, c, u))"
| "reply_step ch (sw_ARG5, c, u) =
     (if ch = CHR '':'' then Next (sw_ARG5, c, u)
      else if ch = CR then Next (sw_almost_done, c, u)
      else if \<not> is_digit ch then Fail (sw_ARG5, c, u)
      else case accum_digit (reset c) ch of
             None \<Rightarrow> Fail (sw_ARG5, c, u)
           | Some v \<Rightarrow> Next (sw_ARG5, c\<lparr>reset := v\<rparr>, u))"
| "reply_step ch (sw_almost_done, c, u) =
     (if ch = LF then Done (sw_almost_done, c, u) else Fail (sw_almost_done, c, u))"

section \<open>The loop and the handler\<close>

text \<open>The loop over the bytes from offset \<open>p\<close>; it returns the value of \<open>p\<close> at its exit.\<close>

fun reply_loop :: "char list \<Rightarrow> nat \<Rightarrow> parse_state \<Rightarrow> nat \<times> parse_state outcome" where
  "reply_loop [] p s = (p, Next s)"
| "reply_loop (ch # cs) p s =
     (case reply_step ch s of
        Next s' \<Rightarrow> reply_loop cs (Suc p) s'
      | Fail s' \<Rightarrow> (p, Fail s')
      | Done s' \<Rightarrow> (p, Done s'))"

definition process_reply :: "rl_ctx \<Rightarrow> upstream \<Rightarrow> nat \<Rightarrow> int \<times> rl_ctx \<times> upstream" where
  "process_reply c u bytes =
     (let b = u_buffer u;
          b = b\<lparr>b_pos := b_last b, b_last := b_last b + bytes\<rparr>;
          u = u\<lparr>u_buffer := b\<rparr>
      in case reply_loop (b_data b) (b_pos b) (state c, c, u) of
           (p, Fail (st, c, u)) \<Rightarrow> (NGX_ERROR, c, u)
         | (p, Next (st, c, u)) \<Rightarrow>
             (NGX_AGAIN, c\<lparr>state := st\<rparr>, u\<lparr>u_buffer := (u_buffer u)\<lparr>b_pos := p\<rparr>\<rparr>)
         | (p, Done (st, c, u)) \<Rightarrow>
             (NGX_OK, c\<lparr>reply_parsed := True\<rparr>,
              u\<lparr>u_buffer := (u_buffer u)\<lparr>b_pos := p + 1\<rparr>, u_keepalive := True, u_length := 0\<rparr>))"

section \<open>The accumulator is exact and bounded\<close>

lemma accum_digit_eq:
  assumes "is_digit ch"
  shows "accum_digit v ch =
    (if unat v * 10 + digit_val ch \<le> unat NGX_MAX_INT
     then Some (of_nat (unat v * 10 + digit_val ch)) else None)"
proof -
  define k where "k = digit_val ch"
  have k: "k < 10" "byte ch = 48 + k"
    using assms by (auto simp: k_def is_digit_def digit_val_def)
  have d: "of_nat (byte ch) - 48 = (of_nat k :: u64)"
    by (simp add: k(2))
  have uk: "unat (of_nat k :: u64) = k"
    using k(1) by (intro unat_of_nat_u64) simp
  have "unat (NGX_MAX_INT - of_nat k) = unat NGX_MAX_INT - k"
    using k(1) uk by (subst unat_sub) (auto simp: word_le_nat_alt)
  then have "unat ((NGX_MAX_INT - of_nat k) div 10) = (unat NGX_MAX_INT - k) div 10"
    by (simp add: unat_div)
  then have guard: "(NGX_MAX_INT - of_nat k) div 10 < v \<longleftrightarrow>
      \<not> unat v * 10 + k \<le> unat NGX_MAX_INT"
    using k(1) by (simp add: word_less_nat_alt) arith
  have val: "v * 10 + of_nat k = of_nat (unat v * 10 + k)"
    by simp
  show ?thesis
    by (simp only: accum_digit_def d Let_def guard val k_def [symmetric] if_not_P not_not)
      (simp split: if_splits)
qed

lemma accum_digit_Some:
  assumes "is_digit ch" "accum_digit v ch = Some w"
  shows "unat w = unat v * 10 + digit_val ch" "unat w \<le> unat NGX_MAX_INT"
proof -
  from assms have le: "unat v * 10 + digit_val ch \<le> unat NGX_MAX_INT"
    and w: "w = of_nat (unat v * 10 + digit_val ch)"
    by (auto simp: accum_digit_eq split: if_splits)
  have "unat v * 10 + digit_val ch < 2 ^ 64" using le by simp
  then show "unat w = unat v * 10 + digit_val ch" by (simp only: w unat_of_nat_u64)
  with le show "unat w \<le> unat NGX_MAX_INT" by simp
qed

section \<open>Byte-fed machines\<close>

text \<open>
  The interface between a byte-at-a-time step and the loop that feeds it: what the parser
  promises its callers, who hand it whatever bytes a read returned.  A loop over two pieces is the
  loop over the first followed by the loop over the second, the result does not depend on the
  offset it counts from, and what every step keeps, every run keeps.
\<close>

fun outcome_state :: "'a outcome \<Rightarrow> 'a" where
  "outcome_state (Next s) = s"
| "outcome_state (Fail s) = s"
| "outcome_state (Done s) = s"

fun outcome_bind :: "'a outcome \<Rightarrow> ('a \<Rightarrow> 'a outcome) \<Rightarrow> 'a outcome" where
  "outcome_bind (Next s) f = f s"
| "outcome_bind (Fail s) f = Fail s"
| "outcome_bind (Done s) f = Done s"

locale byte_machine =
  fixes step :: "char \<Rightarrow> 's \<Rightarrow> 's outcome"
    and loop :: "char list \<Rightarrow> nat \<Rightarrow> 's \<Rightarrow> nat \<times> 's outcome"
  assumes loop_Nil: "loop [] p s = (p, Next s)"
    and loop_Cons: "loop (ch # cs) p s =
      (case step ch s of Next s' \<Rightarrow> loop cs (Suc p) s' | Fail s' \<Rightarrow> (p, Fail s') | Done s' \<Rightarrow> (p, Done s'))"
begin

lemma loop_offset: "snd (loop cs p s) = snd (loop cs q s)"
proof (induction cs arbitrary: p q s)
  case (Cons ch cs)
  then show ?case by (auto simp: loop_Cons split: outcome.splits)
qed (simp add: loop_Nil)

lemma loop_position: "loop cs p s = (q, Next s') \<Longrightarrow> q = p + length cs"
  by (induction cs arbitrary: p s) (fastforce simp: loop_Nil loop_Cons split: outcome.splits)+

lemma loop_append: "snd (loop (xs @ ys) p s) = outcome_bind (snd (loop xs p s)) (\<lambda>s'. snd (loop ys q s'))"
proof (induction xs arbitrary: p s)
  case Nil
  then show ?case by (simp add: loop_Nil loop_offset [of ys p s q])
next
  case (Cons x xs)
  then show ?case by (auto simp: loop_Cons split: outcome.splits)
qed

lemma loop_commute:
  assumes "\<And>ch s. step ch (f s) = map_outcome f (step ch s)"
  shows "snd (loop cs p (f s)) = map_outcome f (snd (loop cs p s))"
proof (induction cs arbitrary: p s)
  case (Cons ch cs)
  then show ?case by (cases "step ch s") (simp_all add: loop_Cons assms)
qed (simp add: loop_Nil)

lemma loop_invariant:
  assumes step: "\<And>ch s. I s \<Longrightarrow> I (outcome_state (step ch s))" and "I s"
  shows "I (outcome_state (snd (loop cs p s)))"
  using assms(2)
proof (induction cs arbitrary: p s)
  case (Cons ch cs)
  from step [OF Cons.prems, of ch] show ?case
    by (cases "step ch s") (auto simp: loop_Cons intro: Cons.IH)
qed (simp add: loop_Nil)

end

interpretation rp: byte_machine reply_step reply_loop
  by unfold_locales simp_all

section \<open>What the parser touches\<close>

text \<open>The parser writes four counters of the context and the status of the upstream; everything
  else, the buffer in particular, is carried along.\<close>

lemma reply_step_frame:
  "\<exists>st' l m n ra s. outcome_state (reply_step ch (st, c, u)) =
     (st', c\<lparr>limit := l, remaining := m, reset := n, retry_after := ra\<rparr>, u\<lparr>u_status := s\<rparr>)"
  (is "\<exists>st' l m n ra s. ?o = ?f st' l m n ra s")
proof -
  obtain st' c' u' where o: "?o = (st', c', u')" by (cases ?o) auto
  have "?o = ?f st' (limit c') (remaining c') (reset c') (retry_after c') (u_status u')"
    using o by (cases st) (auto simp: Let_def split: if_splits option.splits)
  then show ?thesis by blast
qed

text \<open>The parser reads neither the buffer nor \<open>ctx->state\<close>: the handler hands it the bytes and
  the state as locals.  \<open>core\<close> forgets both, and commutes with every step.\<close>

definition core :: "parse_state \<Rightarrow> parse_state" where
  "core = (\<lambda>(st, c, u). (st, c\<lparr>state := sw_start\<rparr>, u\<lparr>u_buffer := empty_buf\<rparr>))"

lemma core_simp [simp]:
  "core (st, c, u) = (st, c\<lparr>state := sw_start\<rparr>, u\<lparr>u_buffer := empty_buf\<rparr>)"
  by (simp add: core_def)

lemma reply_step_core: "reply_step ch (core s) = map_outcome core (reply_step ch s)"
proof -
  obtain st c u where "s = (st, c, u)" by (cases s) auto
  then show ?thesis
    by (cases st) (auto simp: Let_def split: option.splits)
qed

text \<open>The parser's verdict on a sequence of bytes, from a parse state without a buffer.\<close>

definition run_bytes :: "char list \<Rightarrow> parse_state \<Rightarrow> parse_state outcome" where
  "run_bytes cs s = snd (reply_loop cs 0 s)"

lemma run_bytes_core: "run_bytes cs (core s) = map_outcome core (run_bytes cs s)"
  unfolding run_bytes_def by (rule rp.loop_commute) (rule reply_step_core)

lemma run_bytes_Nil [simp]: "run_bytes [] s = Next s"
  by (simp add: run_bytes_def)

lemma run_bytes_Cons:
  "run_bytes (ch # cs) s = outcome_bind (reply_step ch s) (run_bytes cs)"
  by (cases "reply_step ch s") (auto simp: run_bytes_def rp.loop_offset [of cs "Suc 0" _ 0])

lemma run_bytes_append:
  "run_bytes (xs @ ys) s = outcome_bind (run_bytes xs s) (run_bytes ys)"
  unfolding run_bytes_def by (rule rp.loop_append)

section \<open>A reply split across reads\<close>

text \<open>The result of a call of the handler, less the buffer; once the handler has returned
  \<open>NGX_OK\<close> or \<open>NGX_ERROR\<close> the stored parse state is dead and is forgotten too.\<close>

definition verdict :: "int \<times> rl_ctx \<times> upstream \<Rightarrow> int \<times> rl_ctx \<times> upstream" where
  "verdict = (\<lambda>(rc, c, u).
     (rc, if rc = NGX_AGAIN then c else c\<lparr>state := sw_start\<rparr>, u\<lparr>u_buffer := empty_buf\<rparr>))"

fun finish :: "parse_state outcome \<Rightarrow> int \<times> rl_ctx \<times> upstream" where
  "finish (Fail (st, c, u)) = (NGX_ERROR, c, u)"
| "finish (Next (st, c, u)) = (NGX_AGAIN, c\<lparr>state := st\<rparr>, u)"
| "finish (Done (st, c, u)) =
     (NGX_OK, c\<lparr>reply_parsed := True\<rparr>, u\<lparr>u_keepalive := True, u_length := 0\<rparr>)"

text \<open>The next bytes of the reply are in the buffer from \<open>last\<close> on.\<close>

definition offers :: "upstream \<Rightarrow> char list \<Rightarrow> bool" where
  "offers u bs \<longleftrightarrow> take (length bs) (drop (b_last (u_buffer u)) (b_mem (u_buffer u))) = bs"

lemma verdict_process_reply:
  assumes "offers u bs"
  shows "verdict (process_reply c u (length bs)) = finish (run_bytes bs (core (state c, c, u)))"
proof -
  let ?b = "u_buffer u"
  let ?b' = "?b\<lparr>b_pos := b_last ?b, b_last := b_last ?b + length bs\<rparr>"
  let ?s = "(state c, c, u\<lparr>u_buffer := ?b'\<rparr>)"
  have data: "b_data ?b' = bs"
    using assms by (simp add: offers_def b_data_def span_of_def)
  obtain q o' where loop: "reply_loop bs (b_last ?b) ?s = (q, o')" by fastforce
  have "snd (reply_loop bs (b_last ?b) ?s) = snd (reply_loop bs 0 ?s)" by (rule rp.loop_offset)
  with loop have o': "o' = run_bytes bs ?s" by (simp add: run_bytes_def)
  have "run_bytes bs (core (state c, c, u)) = run_bytes bs (core ?s)" by simp
  also have "\<dots> = map_outcome core o'" by (simp only: run_bytes_core o')
  finally have core: "run_bytes bs (core (state c, c, u)) = map_outcome core o'" .
  have "process_reply c u (length bs) =
    (case (q, o') of
           (p, Fail (st, c, u)) \<Rightarrow> (NGX_ERROR, c, u)
         | (p, Next (st, c, u)) \<Rightarrow>
             (NGX_AGAIN, c\<lparr>state := st\<rparr>, u\<lparr>u_buffer := (u_buffer u)\<lparr>b_pos := p\<rparr>\<rparr>)
         | (p, Done (st, c, u)) \<Rightarrow>
             (NGX_OK, c\<lparr>reply_parsed := True\<rparr>,
              u\<lparr>u_buffer := (u_buffer u)\<lparr>b_pos := p + 1\<rparr>, u_keepalive := True, u_length := 0\<rparr>))"
    using data loop by (simp add: process_reply_def Let_def)
  then show ?thesis
    unfolding core by (cases o') (auto simp: verdict_def)
qed

text \<open>The caller's side of a split reply: each piece is read into the rewound buffer and handed to
  the parser, until the parser asks for no more.\<close>

fun feed :: "rl_ctx \<Rightarrow> upstream \<Rightarrow> char list list \<Rightarrow> int \<times> rl_ctx \<times> upstream" where
  "feed c u [] = (NGX_AGAIN, c, u)"
| "feed c u (bs # bss) =
     (case process_reply c (u\<lparr>u_buffer := buf_store (buf_rewind (u_buffer u)) bs\<rparr>) (length bs) of
        (rc, c', u') \<Rightarrow> if rc = NGX_AGAIN then feed c' u' bss else (rc, c', u'))"

lemma offers_store: "offers (u\<lparr>u_buffer := buf_store (buf_rewind b) bs\<rparr>) bs"
  by (simp add: offers_def buf_store_def buf_rewind_def mem_write_def)

lemma finish_rc:
  "fst (finish o') = (case o' of Next _ \<Rightarrow> NGX_AGAIN | Fail _ \<Rightarrow> NGX_ERROR | Done _ \<Rightarrow> NGX_OK)"
  by (cases o') auto

lemma verdict_feed:
  "verdict (feed c u bss) = finish (run_bytes (concat bss) (core (state c, c, u)))"
proof (induction bss arbitrary: c u)
  case Nil
  then show ?case by (simp add: verdict_def)
next
  case (Cons bs bss)
  let ?u = "u\<lparr>u_buffer := buf_store (buf_rewind (u_buffer u)) bs\<rparr>"
  obtain rc c' u' where pr: "process_reply c ?u (length bs) = (rc, c', u')"
    by (cases "process_reply c ?u (length bs)") auto
  have v: "verdict (rc, c', u') = finish (run_bytes bs (core (state c, c, u)))"
    using verdict_process_reply [OF offers_store [where u = u and b = "u_buffer u" and bs = bs], of c] pr by simp
  show ?case
  proof (cases "run_bytes bs (core (state c, c, u))")
    case (Next s)
    obtain st c1 u1 where s: "s = (st, c1, u1)" by (cases s) auto
    from v Next s have rc: "rc = NGX_AGAIN" and c': "c' = c1\<lparr>state := st\<rparr>"
      and u': "u'\<lparr>u_buffer := empty_buf\<rparr> = u1"
      by (auto simp: verdict_def)
    have "core s = s"
      using run_bytes_core [of bs "core (state c, c, u)"] Next by simp
    then have "core (state c', c', u') = s"
      by (simp add: c' u' s)
    with Cons.IH [of c' u'] Next pr rc show ?thesis
      by (simp add: run_bytes_append)
  next
    case (Fail s)
    with v pr show ?thesis
      by (cases s) (auto simp: run_bytes_append verdict_def)
  next
    case (Done s)
    with v pr show ?thesis
      by (cases s) (auto simp: run_bytes_append verdict_def)
  qed
qed

text \<open>C14: A reply may arrive split at any points: feeding the parser its pieces, whatever their
  sizes, returns the same code, the same counters and the same status as one call on the whole
  reply (the dead parse state and the read buffer aside).\<close>

theorem reply_chunking:
  "verdict (feed c u bss) =
   verdict (process_reply c (u\<lparr>u_buffer := buf_store (buf_rewind (u_buffer u)) (concat bss)\<rparr>)
             (length (concat bss)))"
proof -
  let ?u = "u\<lparr>u_buffer := buf_store (buf_rewind (u_buffer u)) (concat bss)\<rparr>"
  have "verdict (process_reply c ?u (length (concat bss))) =
      finish (run_bytes (concat bss) (core (state c, c, ?u)))"
    by (rule verdict_process_reply) (rule offers_store)
  then show ?thesis by (simp add: verdict_feed)
qed

section \<open>The language of replies: a reference parser\<close>

text \<open>
  The reference reads the reply field by field from the whole text.  It is as lenient as the state
  machine is: colons may stand anywhere in a number, a number may have no digits, the first two
  line ends may have any number of carriage returns, and the minus sign of the fourth field may
  be followed by any number of ones, or none.
\<close>

definition field_char :: "char \<Rightarrow> bool" where
  "field_char ch \<longleftrightarrow> ch = CHR '':'' \<or> is_digit ch"

definition lax_eol :: "ngx_str \<Rightarrow> ngx_str option" where
  "lax_eol s = (case dropWhile ((=) CR) s of a # t \<Rightarrow> if a = LF then Some t else None | [] \<Rightarrow> None)"

definition number_from :: "nat \<Rightarrow> ngx_str \<Rightarrow> (nat \<times> ngx_str) option" where
  "number_from a s =
     (let v = dec_value_from a (filter is_digit (takeWhile field_char s))
      in if v \<le> unat NGX_MAX_INT
         then map_option (Pair v) (strict_eol (dropWhile field_char s)) else None)"

definition status_field :: "ngx_str \<Rightarrow> (u64 \<times> ngx_str) option" where
  "status_field s = (case dropWhile ((=) (CHR '':'')) s of
     a # t \<Rightarrow> if a = CHR ''0'' then map_option (Pair ST_OK) (lax_eol t)
               else if a = CHR ''1'' then map_option (Pair ST_TOO_MANY_REQUESTS) (lax_eol t)
               else None
   | [] \<Rightarrow> None)"

text \<open>The value of the retry field: its digits, read from a value that stands for "none yet"
  while it is negative.\<close>

definition retry_value :: "int \<Rightarrow> ngx_str \<Rightarrow> int" where
  "retry_value a ds = (if ds = [] then a else int (dec_value_from (nat a) ds))"

definition retry_from :: "int \<Rightarrow> ngx_str \<Rightarrow> (int \<times> ngx_str) option" where
  "retry_from a s =
     (let v = retry_value a (filter is_digit (takeWhile field_char s)); t = dropWhile field_char s
      in if uint NGX_MAX_INT < v then None
         else case t of
           a # t' \<Rightarrow>
             if a = CHR ''-''
             then map_option (Pair (if takeWhile ((=) (CHR ''1'')) t' = [] then v else -1))
                    (strict_eol (dropWhile ((=) (CHR ''1'')) t'))
             else map_option (Pair v) (strict_eol t)
         | [] \<Rightarrow> None)"

type_synonym reply_values = "u64 \<times> nat \<times> nat \<times> int \<times> nat"

definition ref_reply :: "ngx_str \<Rightarrow> reply_values option" where
  "ref_reply s =
     Option.bind (case s of a # t \<Rightarrow> if a = CHR ''5'' then lax_eol t else None | [] \<Rightarrow> None) (\<lambda>t.
     Option.bind (status_field t) (\<lambda>(status, t).
     Option.bind (number_from 0 t) (\<lambda>(lim, t).
     Option.bind (number_from 0 t) (\<lambda>(rem, t).
     Option.bind (retry_from (-1) t) (\<lambda>(retry, t).
     Option.bind (number_from 0 t) (\<lambda>(rst, t).
     Some (status, lim, rem, retry, rst)))))))"

text \<open>What the machine accepts from a state: the parse state at \<open>done\<close>.\<close>

definition accepts :: "ngx_str \<Rightarrow> parse_state \<Rightarrow> parse_state option" where
  "accepts s st = (case run_bytes s st of Done st' \<Rightarrow> Some st' | _ \<Rightarrow> None)"

lemma accepts_Nil [simp]: "accepts [] st = None"
  by (simp add: accepts_def)

lemma accepts_Cons [simp]:
  "accepts (ch # s) st =
     (case reply_step ch st of Next st' \<Rightarrow> accepts s st' | Done st' \<Rightarrow> Some st' | Fail _ \<Rightarrow> None)"
  by (cases "reply_step ch st") (simp_all add: accepts_def run_bytes_Cons)

subsection \<open>Number fields\<close>

lemma number_from_Nil: "number_from a [] = None"
  by (simp add: number_from_def strict_eol_def Let_def)

lemma number_from_Cons:
  "number_from a (CHR '':'' # s) = number_from a s"
  "is_digit ch \<Longrightarrow> number_from a (ch # s) = number_from (a * 10 + digit_val ch) s"
  "number_from a (CR # s) =
     (if a \<le> unat NGX_MAX_INT then map_option (Pair a) (strict_eol (CR # s)) else None)"
  "\<not> field_char ch \<Longrightarrow> ch \<noteq> CR \<Longrightarrow> number_from a (ch # s) = None"
  by (auto simp: number_from_def field_char_def strict_eol_def Let_def split: list.splits)

lemma number_from_overflow: "unat NGX_MAX_INT < a \<Longrightarrow> number_from a s = None"
  using dec_value_from_ge [of a "filter is_digit (takeWhile field_char s)"]
  by (auto simp: number_from_def Let_def)

text \<open>The three counters are parsed by three copies of the same two states: one that reads the
  digits of a counter and one that expects the line feed.\<close>

locale number_field =
  fixes W E :: "u64 \<Rightarrow> parse_state" and R :: "ngx_str \<Rightarrow> u64 \<Rightarrow> parse_state option"
  assumes colon: "reply_step (CHR '':'') (W v) = Next (W v)"
    and cr: "reply_step CR (W v) = Next (E v)"
    and digit: "is_digit ch \<Longrightarrow> reply_step ch (W v) =
      (case accum_digit v ch of None \<Rightarrow> Fail (W v) | Some w \<Rightarrow> Next (W w))"
    and other: "\<not> field_char ch \<Longrightarrow> ch \<noteq> CR \<Longrightarrow> reply_step ch (W v) = Fail (W v)"
    and eol: "accepts s (E v) = (case s of ch # t \<Rightarrow> if ch = LF then R t v else None | [] \<Rightarrow> None)"
begin

lemma accepts_number:
  "unat v \<le> unat NGX_MAX_INT \<Longrightarrow>
   accepts s (W v) = Option.bind (number_from (unat v) s) (\<lambda>(n, t). R t (of_nat n))"
proof (induction s arbitrary: v)
  case Nil
  then show ?case by (simp add: number_from_Nil)
next
  case (Cons ch s)
  consider "ch = CHR '':''" | "is_digit ch" | "ch = CR" | "\<not> field_char ch" "ch \<noteq> CR"
    unfolding field_char_def by blast
  then show ?case
  proof cases
    case 1
    with Cons show ?thesis by (simp add: colon number_from_Cons)
  next
    case 2
    let ?w = "unat v * 10 + digit_val ch"
    show ?thesis
    proof (cases "?w \<le> unat NGX_MAX_INT")
      case True
      then have "accum_digit v ch = Some (of_nat ?w)" by (simp add: accum_digit_eq 2)
      moreover have "unat (of_nat ?w :: u64) = ?w" using True by (intro unat_of_nat_u64) simp
      ultimately show ?thesis
        using Cons.IH [of "of_nat ?w"] True by (simp only: accepts_Cons digit 2 number_from_Cons) simp
    next
      case False
      then have "accum_digit v ch = None" by (simp add: accum_digit_eq 2)
      moreover have "number_from ?w s = None" using False by (intro number_from_overflow) simp
      ultimately show ?thesis by (simp add: digit 2 number_from_Cons)
    qed
  next
    case 3
    with Cons.prems show ?thesis
      by (auto simp: cr eol number_from_Cons strict_eol_def split: list.splits)
  next
    case 4
    then show ?thesis by (simp add: other number_from_Cons)
  qed
qed

end

interpretation limit_field: number_field
  "\<lambda>v. (sw_ARG2, c\<lparr>limit := v\<rparr>, u)" "\<lambda>v. (sw_LF1, c\<lparr>limit := v\<rparr>, u)"
  "\<lambda>s v. accepts s (sw_ARG3, c\<lparr>limit := v\<rparr>, u)" for c u
  by unfold_locales (simp_all add: field_char_def is_digit_neq split: option.split list.split)

interpretation remaining_field: number_field
  "\<lambda>v. (sw_ARG3, c\<lparr>remaining := v\<rparr>, u)" "\<lambda>v. (sw_LF2, c\<lparr>remaining := v\<rparr>, u)"
  "\<lambda>s v. accepts s (sw_ARG4, c\<lparr>remaining := v\<rparr>, u)" for c u
  by unfold_locales (simp_all add: field_char_def is_digit_neq split: option.split list.split)

interpretation reset_field: number_field
  "\<lambda>v. (sw_ARG5, c\<lparr>reset := v\<rparr>, u)" "\<lambda>v. (sw_almost_done, c\<lparr>reset := v\<rparr>, u)"
  "\<lambda>s v. Some (sw_almost_done, c\<lparr>reset := v\<rparr>, u)" for c u
  by unfold_locales (simp_all add: field_char_def is_digit_neq split: option.split list.split)

subsection \<open>The other fields\<close>

lemma lax_eol_Cons:
  "lax_eol [] = None" "lax_eol (CR # s) = lax_eol s" "lax_eol (LF # s) = Some s"
  "ch \<noteq> CR \<Longrightarrow> ch \<noteq> LF \<Longrightarrow> lax_eol (ch # s) = None"
  by (auto simp: lax_eol_def)

lemma accepts_CRLF1: "accepts s (sw_CRLF1, c, u) = Option.bind (lax_eol s) (\<lambda>t. accepts t (sw_ARG1, c, u))"
  by (induction s) (auto simp: lax_eol_Cons)

lemma accepts_CRLF2: "accepts s (sw_CRLF2, c, u) = Option.bind (lax_eol s) (\<lambda>t. accepts t (sw_ARG2, c, u))"
  by (induction s) (auto simp: lax_eol_Cons)

lemma status_field_Cons:
  "status_field [] = None"
  "status_field (CHR '':'' # s) = status_field s"
  "status_field (CHR ''0'' # s) = map_option (Pair ST_OK) (lax_eol s)"
  "status_field (CHR ''1'' # s) = map_option (Pair ST_TOO_MANY_REQUESTS) (lax_eol s)"
  "ch \<notin> {CHR '':'', CHR ''0'', CHR ''1''} \<Longrightarrow> status_field (ch # s) = None"
  by (auto simp: status_field_def)

lemma accepts_ARG1:
  "accepts s (sw_ARG1, c, u) =
   Option.bind (status_field s) (\<lambda>(st, t). accepts t (sw_ARG2, c, u\<lparr>u_status := st\<rparr>))"
  by (induction s) (auto simp: status_field_Cons accepts_CRLF2 Option.bind_map_option o_def)

lemma accepts_ALLOWED:
  "accepts s (sw_ALLOWED, c, u) =
   Option.bind (strict_eol (dropWhile ((=) (CHR ''1'')) s)) (\<lambda>t.
     accepts t (sw_ARG5, if takeWhile ((=) (CHR ''1'')) s = [] then c else c\<lparr>retry_after := -1\<rparr>, u))"
proof (induction s arbitrary: c)
  case (Cons ch s)
  show ?case
  proof (cases "ch = CHR ''1''")
    case True
    then show ?thesis by (simp add: Cons.IH)
  next
    case False
    then show ?thesis by (cases s) (auto simp: strict_eol_def)
  qed
qed (simp add: strict_eol_def)

lemma retry_value_digit:
  "retry_value a (d # ds) = retry_value (int (nat a * 10 + digit_val d)) ds"
  by (simp add: retry_value_def nat_add_distrib nat_mult_distrib)

lemma retry_value_ge: "0 \<le> a \<Longrightarrow> a \<le> retry_value a ds"
  using dec_value_from_ge [of "nat a" ds] by (auto simp: retry_value_def)

lemma retry_from_Cons:
  "retry_from a [] = None"
  "retry_from a (CHR '':'' # s) = retry_from a s"
  "is_digit ch \<Longrightarrow> retry_from a (ch # s) = retry_from (int (nat a * 10 + digit_val ch)) s"
  "a \<le> uint NGX_MAX_INT \<Longrightarrow> retry_from a (CR # s) = map_option (Pair a) (strict_eol (CR # s))"
  "a \<le> uint NGX_MAX_INT \<Longrightarrow> retry_from a (CHR ''-'' # s) =
     map_option (Pair (if takeWhile ((=) (CHR ''1'')) s = [] then a else -1))
       (strict_eol (dropWhile ((=) (CHR ''1'')) s))"
  "\<not> field_char ch \<Longrightarrow> ch \<noteq> CR \<Longrightarrow> ch \<noteq> CHR ''-'' \<Longrightarrow> retry_from a (ch # s) = None"
  by (auto simp: retry_from_def retry_value_digit field_char_def Let_def)
    (auto simp: retry_value_def strict_eol_def split: list.splits)

lemma retry_from_overflow: "uint NGX_MAX_INT < a \<Longrightarrow> retry_from a s = None"
  using retry_value_ge [of a "filter is_digit (takeWhile field_char s)"]
  by (auto simp: retry_from_def Let_def)

text \<open>\<open>retry_after\<close> as a signed word: the value it holds while the fourth field is read.\<close>

lemma sint_of_int_u64:
  "-1 \<le> a \<Longrightarrow> a \<le> uint NGX_MAX_INT \<Longrightarrow> sint (of_int a :: u64) = a"
  by (simp add: sint_sbintrunc' signed_take_bit_int_eq_self)

lemma accum_digit_retry:
  assumes "-1 \<le> a" "a \<le> uint NGX_MAX_INT" "is_digit ch"
  defines "w \<equiv> int (nat a * 10 + digit_val ch)"
  shows "accum_digit (if sint (of_int a :: u64) < 0 then 0 else of_int a) ch =
    (if w \<le> uint NGX_MAX_INT then Some (of_int w) else None)"
proof -
  let ?v = "if sint (of_int a :: u64) < 0 then 0 else of_int a :: u64"
  have "?v = of_nat (nat a)"
    using assms(1,2) sint_of_int_u64 [OF assms(1,2)] by auto
  moreover have "unat (of_nat (nat a) :: u64) = nat a"
    using assms(2) by (intro unat_of_nat_u64) simp
  ultimately have "unat ?v = nat a" by simp
  moreover have "nat a * 10 + digit_val ch \<le> unat NGX_MAX_INT \<longleftrightarrow> w \<le> uint NGX_MAX_INT"
    by (simp add: w_def) arith
  ultimately show ?thesis
    by (simp only: accum_digit_eq [OF assms(3)]) (simp add: w_def)
qed

lemma accepts_ARG4:
  "-1 \<le> a \<Longrightarrow> a \<le> uint NGX_MAX_INT \<Longrightarrow>
   accepts s (sw_ARG4, c\<lparr>retry_after := of_int a\<rparr>, u) =
   Option.bind (retry_from a s) (\<lambda>(v, t). accepts t (sw_ARG5, c\<lparr>retry_after := of_int v\<rparr>, u))"
proof (induction s arbitrary: a)
  case Nil
  then show ?case by (simp add: retry_from_Cons)
next
  case (Cons ch s)
  consider "ch = CHR '':''" | "is_digit ch" | "ch = CR" | "ch = CHR ''-''"
    | "\<not> field_char ch" "ch \<noteq> CR" "ch \<noteq> CHR ''-''"
    unfolding field_char_def by blast
  then show ?case
  proof cases
    case 1
    with Cons show ?thesis by (simp add: retry_from_Cons)
  next
    case 2
    let ?w = "int (nat a * 10 + digit_val ch)"
    have acc: "accum_digit (if sint (of_int a :: u64) < 0 then 0 else of_int a) ch =
        (if ?w \<le> uint NGX_MAX_INT then Some (of_int ?w) else None)"
      by (rule accum_digit_retry [OF Cons.prems 2])
    have step: "reply_step ch (sw_ARG4, c\<lparr>retry_after := of_int a\<rparr>, u) =
        (case accum_digit (if sint (of_int a :: u64) < 0 then 0 else of_int a) ch of
           None \<Rightarrow> Fail (sw_ARG4, c\<lparr>retry_after :=
                     if sint (of_int a :: u64) < 0 then 0 else of_int a\<rparr>, u)
         | Some v \<Rightarrow> Next (sw_ARG4, c\<lparr>retry_after := v\<rparr>, u))"
      by (simp add: Let_def is_digit_neq 2 split: option.split)
    show ?thesis
    proof (cases "?w \<le> uint NGX_MAX_INT")
      case True
      with acc step Cons.IH [of ?w] show ?thesis
        by (simp only: accepts_Cons retry_from_Cons 2) simp
    next
      case False
      then have "retry_from ?w s = None" by (intro retry_from_overflow) simp
      with False acc step show ?thesis by (simp only: accepts_Cons retry_from_Cons 2) simp
    qed
  next
    case 3
    with Cons.prems show ?thesis
      by (auto simp: retry_from_Cons strict_eol_def split: list.splits)
  next
    case 4
    with Cons.prems show ?thesis
      by (auto simp: retry_from_Cons accepts_ALLOWED Option.bind_map_option o_def)
  next
    case 5
    then show ?thesis by (simp add: retry_from_Cons field_char_def)
  qed
qed

text \<open>The context and status a reply leaves behind.\<close>

definition set_values :: "reply_values \<Rightarrow> rl_ctx \<times> upstream \<Rightarrow> rl_ctx \<times> upstream" where
  "set_values = (\<lambda>(st, lim, rem, ra, rst) (c, u).
     (c\<lparr>limit := of_nat lim, remaining := of_nat rem, reset := of_nat rst, retry_after := of_int ra\<rparr>,
      u\<lparr>u_status := st\<rparr>))"

text \<open>A context as the parser finds it: no counter read yet and \<open>retry_after\<close> at \<open>-1\<close>.\<close>

definition fresh_ctx :: "rl_ctx \<Rightarrow> bool" where
  "fresh_ctx c \<longleftrightarrow> state c = sw_start \<and> limit c = 0 \<and> remaining c = 0 \<and> reset c = 0 \<and> retry_after c = -1"

lemma ctx_update_same:
  "limit c = v \<Longrightarrow> c\<lparr>limit := v\<rparr> = c" "remaining c = v \<Longrightarrow> c\<lparr>remaining := v\<rparr> = c"
  "reset c = v \<Longrightarrow> c\<lparr>reset := v\<rparr> = c" "retry_after c = v \<Longrightarrow> c\<lparr>retry_after := v\<rparr> = c"
  by auto

lemma accepts_number_fields:
  "limit c = 0 \<Longrightarrow> accepts s (sw_ARG2, c, u) =
     Option.bind (number_from 0 s) (\<lambda>(n, t). accepts t (sw_ARG3, c\<lparr>limit := of_nat n\<rparr>, u))"
  "remaining c = 0 \<Longrightarrow> accepts s (sw_ARG3, c, u) =
     Option.bind (number_from 0 s) (\<lambda>(n, t). accepts t (sw_ARG4, c\<lparr>remaining := of_nat n\<rparr>, u))"
  "reset c = 0 \<Longrightarrow> accepts s (sw_ARG5, c, u) =
     Option.bind (number_from 0 s) (\<lambda>(n, t). Some (sw_almost_done, c\<lparr>reset := of_nat n\<rparr>, u))"
  "retry_after c = -1 \<Longrightarrow> accepts s (sw_ARG4, c, u) =
     Option.bind (retry_from (-1) s) (\<lambda>(v, t). accepts t (sw_ARG5, c\<lparr>retry_after := of_int v\<rparr>, u))"
  using limit_field.accepts_number [of 0 s c u] remaining_field.accepts_number [of 0 s c u]
    reset_field.accepts_number [of 0 s c u] accepts_ARG4 [of "-1" s c u]
  by (simp_all add: ctx_update_same)

lemma accepts_ref_reply:
  assumes "fresh_ctx c"
  shows "map_option snd (accepts s (sw_start, c, u)) =
    map_option (\<lambda>vals. set_values vals (c, u)) (ref_reply s)"
  using assms
  by (cases s) (auto simp: fresh_ctx_def ref_reply_def set_values_def accepts_CRLF1 accepts_ARG1
    accepts_number_fields split: Option.bind_splits option.splits prod.splits)

section \<open>The handler against the reference\<close>

lemma accepts_process_reply:
  assumes "offers u s"
  shows "fst (process_reply c u (length s)) = NGX_OK \<longleftrightarrow> accepts s (core (state c, c, u)) \<noteq> None"
    and "accepts s (core (state c, c, u)) = Some (st, c', u') \<Longrightarrow>
      verdict (process_reply c u (length s)) =
        (NGX_OK, c'\<lparr>reply_parsed := True\<rparr>, u'\<lparr>u_keepalive := True, u_length := 0\<rparr>)"
proof -
  let ?o = "run_bytes s (core (state c, c, u))"
  have v: "verdict (process_reply c u (length s)) = finish ?o"
    by (rule verdict_process_reply [OF assms])
  have "fst (verdict x) = fst x" for x by (cases x) (simp add: verdict_def)
  from this [of "process_reply c u (length s)"] v
  show "fst (process_reply c u (length s)) = NGX_OK \<longleftrightarrow> accepts s (core (state c, c, u)) \<noteq> None"
    by (cases ?o) (auto simp: accepts_def)
  show "verdict (process_reply c u (length s)) =
        (NGX_OK, c'\<lparr>reply_parsed := True\<rparr>, u'\<lparr>u_keepalive := True, u_length := 0\<rparr>)"
    if "accepts s (core (state c, c, u)) = Some (st, c', u')"
    using that v by (cases ?o) (auto simp: accepts_def)
qed

lemma fresh_core: "fresh_ctx c \<Longrightarrow> core (state c, c, u) = (sw_start, c, u\<lparr>u_buffer := empty_buf\<rparr>)"
  by (auto simp: fresh_ctx_def)

lemma reply_matches_reference:
  assumes "fresh_ctx c" and "offers u s"
  shows "case ref_reply s of
      None \<Rightarrow> fst (process_reply c u (length s)) \<noteq> NGX_OK
    | Some vals \<Rightarrow>
        verdict (process_reply c u (length s)) =
          (let (c', u') = set_values vals (c, u\<lparr>u_buffer := empty_buf\<rparr>)
           in (NGX_OK, c'\<lparr>reply_parsed := True\<rparr>, u'\<lparr>u_keepalive := True, u_length := 0\<rparr>))"
proof -
  let ?u = "u\<lparr>u_buffer := empty_buf\<rparr>"
  note core = fresh_core [OF assms(1), of u]
  note acc = accepts_ref_reply [OF assms(1), of s ?u]
  show ?thesis
  proof (cases "ref_reply s")
    case None
    with acc have "accepts s (core (state c, c, u)) = None" by (simp only: core) simp
    with accepts_process_reply(1) [OF assms(2), of c] None show ?thesis by simp
  next
    case (Some vals)
    obtain c' u' where v: "set_values vals (c, ?u) = (c', u')" by fastforce
    with acc Some obtain st where "accepts s (core (state c, c, u)) = Some (st, c', u')"
      by (auto simp only: core) (auto)
    from accepts_process_reply(2) [OF assms(2) this] Some v show ?thesis by simp
  qed
qed

text \<open>C9: The byte-at-a-time state machine computes exactly what the field-by-field reference
  parser computes: on a whole reply offered to a fresh context it returns \<open>NGX_OK\<close> if and only if
  the reference accepts the text, and then the counters, the retry value and the status are those of
  the reference, the reply is marked parsed, \<open>u->length\<close> is 0 and the connection is kept
  alive.\<close>

theorem reply_equiv_reference:
  assumes "fresh_ctx c" and "offers u s"
  shows "case ref_reply s of
      None \<Rightarrow> fst (process_reply c u (length s)) \<noteq> NGX_OK
    | Some vals \<Rightarrow>
        verdict (process_reply c u (length s)) =
          (let (c', u') = set_values vals (c, u\<lparr>u_buffer := empty_buf\<rparr>)
           in (NGX_OK, c'\<lparr>reply_parsed := True\<rparr>, u'\<lparr>u_keepalive := True, u_length := 0\<rparr>))"
  using assms by (rule reply_matches_reference)

text \<open>A buffer that holds a given text unread, for the concrete instances.\<close>

definition reply_at :: "ngx_str \<Rightarrow> upstream" where
  "reply_at s = sample_upstream\<lparr>u_buffer := \<lparr>b_mem = s, b_pos = 0, b_last = 0, b_last_buf = False\<rparr>\<rparr>"

lemma offers_reply_at [simp]: "offers (reply_at s) s"
  by (simp add: offers_def reply_at_def)

lemma fresh_sample_ctx [simp]: "fresh_ctx sample_ctx"
  by (simp add: fresh_ctx_def sample_ctx_def zero_ctx_def)

theorem reply_equiv_reference_witness:
  "fst (process_reply sample_ctx (reply_at ''5'') 1) \<noteq> NGX_OK"
  using reply_equiv_reference [of sample_ctx "reply_at ''5''" "''5''"]
  by (simp add: ref_reply_def lax_eol_def)

section \<open>Round trip\<close>

text \<open>A RESP integer as Redis prints it, and the reply to a script that returns five integers
  (after the opening \<open>*\<close>).\<close>

definition resp_int :: "int \<Rightarrow> ngx_str" where
  "resp_int i = '':'' @ (if i < 0 then CHR ''-'' # dec (nat (- i)) else dec (nat i)) @ CRLF"

definition reply_text :: "int list \<Rightarrow> ngx_str" where
  "reply_text is = ''5'' @ CRLF @ concat (map resp_int is)"

lemma takeWhile_dec: "takeWhile field_char (dec n @ CR # s) = dec n"
  and dropWhile_dec: "dropWhile field_char (dec n @ CR # s) = CR # s"
  by (simp_all add: field_char_def dec_digits)

lemma filter_digits_dec: "filter is_digit (dec n) = dec n"
  by (simp add: dec_digits)

lemma number_from_resp:
  "0 \<le> i \<Longrightarrow> i \<le> uint NGX_MAX_INT \<Longrightarrow> number_from 0 (resp_int i @ s) = Some (nat i, s)"
  by (simp add: resp_int_def number_from_Cons)
    (simp add: number_from_def takeWhile_dec dropWhile_dec filter_digits_dec strict_eol_def Let_def)

lemma retry_from_resp:
  assumes "-1 \<le> i" "i \<le> uint NGX_MAX_INT"
  shows "retry_from (-1) (resp_int i @ s) = Some (i, s)"
proof (cases "i < 0")
  case True
  with assms have "i = -1" by simp
  moreover have "dec 1 = ''1''" by (simp add: dec.simps)
  ultimately show ?thesis
    by (simp add: resp_int_def retry_from_Cons strict_eol_def)
next
  case False
  with assms show ?thesis
    by (simp add: resp_int_def retry_from_Cons)
      (simp add: retry_from_def takeWhile_dec dropWhile_dec filter_digits_dec strict_eol_def Let_def
        retry_value_def)
qed

lemma status_field_resp:
  "status_field (resp_int 0 @ s) = Some (ST_OK, s)"
  "status_field (resp_int 1 @ s) = Some (ST_TOO_MANY_REQUESTS, s)"
  by (simp_all add: resp_int_def dec.simps status_field_Cons lax_eol_Cons)

lemma ref_reply_text:
  assumes "blocked \<in> {0, 1}" "0 \<le> lim" "lim \<le> uint NGX_MAX_INT" "0 \<le> rem" "rem \<le> uint NGX_MAX_INT"
    "-1 \<le> retry" "retry \<le> uint NGX_MAX_INT" "0 \<le> rst" "rst \<le> uint NGX_MAX_INT"
  shows "ref_reply (reply_text [blocked, lim, rem, retry, rst]) =
    Some (if blocked = 0 then ST_OK else ST_TOO_MANY_REQUESTS, nat lim, nat rem, retry, nat rst)"
  using assms number_from_resp [of rst "[]"]
  by (auto simp: reply_text_def ref_reply_def lax_eol_Cons status_field_resp number_from_resp
      retry_from_resp)

lemma reply_values_parsed:
  assumes "fresh_ctx c" and "offers u s" and "s = reply_text [blocked, lim, rem, retry, rst]"
    and "blocked \<in> {0, 1}" and "0 \<le> lim" "lim \<le> uint NGX_MAX_INT" and "0 \<le> rem" "rem \<le> uint NGX_MAX_INT"
    and "-1 \<le> retry" "retry \<le> uint NGX_MAX_INT" and "0 \<le> rst" "rst \<le> uint NGX_MAX_INT"
    and "process_reply c u (length s) = (rc, c', u')"
  shows "rc = NGX_OK \<and> reply_parsed c' \<and> u_length u' = 0
    \<and> u_status u' = (if blocked = 0 then ST_OK else ST_TOO_MANY_REQUESTS)
    \<and> uint (limit c') = lim \<and> uint (remaining c') = rem \<and> sint (retry_after c') = retry
    \<and> uint (reset c') = rst"
proof -
  have ref: "ref_reply s = Some (if blocked = 0 then ST_OK else ST_TOO_MANY_REQUESTS,
      nat lim, nat rem, retry, nat rst)"
    unfolding assms(3) by (rule ref_reply_text) (use assms in auto)
  let ?c = "c\<lparr>limit := of_nat (nat lim), remaining := of_nat (nat rem), reset := of_nat (nat rst),
      retry_after := of_int retry, reply_parsed := True\<rparr>"
  let ?u = "u\<lparr>u_buffer := empty_buf, u_status := if blocked = 0 then ST_OK else ST_TOO_MANY_REQUESTS,
      u_keepalive := True, u_length := 0\<rparr>"
  have v: "verdict (rc, c', u') = (NGX_OK, ?c, ?u)"
    using reply_matches_reference [OF assms(1,2)]
    by (simp only: ref option.case assms(13) set_values_def prod.case Let_def)
  then have rc: "rc = NGX_OK" by (simp add: verdict_def)
  with v have c': "c'\<lparr>state := sw_start\<rparr> = ?c" and u': "u'\<lparr>u_buffer := empty_buf\<rparr> = ?u"
    by (simp_all add: verdict_def)
  have nat_word: "uint (of_nat (nat i) :: u64) = i" if "0 \<le> i" "i \<le> uint NGX_MAX_INT" for i
    using that by (simp add: unsigned_of_int take_bit_int_eq_self)
  have "sint (of_int retry :: u64) = retry"
    using assms by (intro sint_of_int_u64) auto
  with rc nat_word [OF assms(5,6)] nat_word [OF assms(7,8)] nat_word [OF assms(11,12)] show ?thesis
    using arg_cong [OF c', of reply_parsed] arg_cong [OF c', of limit] arg_cong [OF c', of remaining]
      arg_cong [OF c', of retry_after] arg_cong [OF c', of reset] arg_cong [OF u', of u_length]
      arg_cong [OF u', of u_status]
    by simp
qed

text \<open>C18: Round trip with Redis: when a script returns five integers within the contract (status 0
  or 1, counters and reset between 0 and \<open>NGX_MAX_INT_T_VALUE\<close>, retry at least \<open>-1\<close>), the
  text Redis prints for them is parsed back to exactly these values, with status 200 for 0 and 429
  for 1.\<close>

theorem reply_roundtrip:
  assumes "fresh_ctx c" and "offers u s" and "s = reply_text [blocked, lim, rem, retry, rst]"
    and "blocked \<in> {0, 1}" and "0 \<le> lim" "lim \<le> uint NGX_MAX_INT" and "0 \<le> rem" "rem \<le> uint NGX_MAX_INT"
    and "-1 \<le> retry" "retry \<le> uint NGX_MAX_INT" and "0 \<le> rst" "rst \<le> uint NGX_MAX_INT"
    and "process_reply c u (length s) = (rc, c', u')"
  shows "rc = NGX_OK \<and> reply_parsed c' \<and> u_length u' = 0
    \<and> u_status u' = (if blocked = 0 then ST_OK else ST_TOO_MANY_REQUESTS)
    \<and> uint (limit c') = lim \<and> uint (remaining c') = rem \<and> sint (retry_after c') = retry
    \<and> uint (reset c') = rst"
  using assms by (rule reply_values_parsed)

theorem reply_roundtrip_witness:
  "\<exists>c u. process_reply sample_ctx (reply_at (reply_text [1, 15, 0, 42, 60])) (length (reply_text [1, 15, 0, 42, 60]))
       = (NGX_OK, c, u)
     \<and> u_status u = ST_TOO_MANY_REQUESTS \<and> uint (limit c) = 15 \<and> sint (retry_after c) = 42"
proof -
  let ?s = "reply_text [1, 15, 0, 42, 60]"
  obtain rc c u where "process_reply sample_ctx (reply_at ?s) (length ?s) = (rc, c, u)"
    by (cases "process_reply sample_ctx (reply_at ?s) (length ?s)")
  with reply_roundtrip [OF _ _ refl, of sample_ctx "reply_at ?s" 1 15 0 42 60] show ?thesis by simp
qed

text \<open>C37: The parser accepts more than the documented contract: a reply whose status is bare, whose counters
  have neither a colon nor a digit, and whose retry field is a minus sign followed by any number of
  ones, or by none, is a complete reply; the empty numbers count as 0 and the retry value as -1, so
  the request passes.\<close>

theorem reply_lenient:
  assumes "fresh_ctx c" and "offers u s"
    and "s = ''5'' @ CRLF @ ''0'' @ CRLF @ CRLF @ CRLF @ ''-'' @ replicate k (CHR ''1'') @ CRLF @ CRLF"
    and "process_reply c u (length s) = (rc, c', u')"
  shows "rc = NGX_OK \<and> reply_parsed c' \<and> u_status u' = ST_OK
    \<and> limit c' = 0 \<and> remaining c' = 0 \<and> retry_after c' = -1 \<and> reset c' = 0"
proof -
  let ?t = "replicate k (CHR ''1'') @ CR # LF # CR # LF # []"
  have "takeWhile ((=) (CHR ''1'')) ?t = replicate k (CHR ''1'')"
    "dropWhile ((=) (CHR ''1'')) ?t = CR # LF # CR # LF # []"
    by (induction k) auto
  then have "retry_from (-1) (CHR ''-'' # ?t) = Some (-1, CR # LF # [])"
    by (simp add: retry_from_Cons)
  then have ref: "ref_reply s = Some (ST_OK, 0, 0, -1, 0)"
    by (simp add: assms(3) ref_reply_def lax_eol_Cons status_field_Cons number_from_Cons)
  then obtain p where acc: "accepts s (core (state c, c, u)) = Some (p, set_values (ST_OK, 0, 0, -1, 0) (c, u\<lparr>u_buffer := empty_buf\<rparr>))"
    using accepts_ref_reply [OF assms(1), of s "u\<lparr>u_buffer := empty_buf\<rparr>"]
    by (auto simp only: fresh_core [OF assms(1)]) (auto simp: set_values_def)
  from accepts_process_reply(2) [OF assms(2) acc [unfolded set_values_def prod.case]] assms(4)
  have v: "verdict (rc, c', u') = (NGX_OK, c\<lparr>limit := 0, remaining := 0, reset := 0, retry_after := -1, reply_parsed := True\<rparr>,
      u\<lparr>u_buffer := empty_buf, u_status := ST_OK, u_keepalive := True, u_length := 0\<rparr>)" (is "_ = (_, ?c, ?u)")
    by simp
  then have "c'\<lparr>state := sw_start\<rparr> = ?c" "u'\<lparr>u_buffer := empty_buf\<rparr> = ?u" "rc = NGX_OK"
    by (simp_all add: verdict_def split: if_splits)
  from this(3) arg_cong [OF this(1), of reply_parsed] arg_cong [OF this(1), of limit]
    arg_cong [OF this(1), of remaining] arg_cong [OF this(1), of reset] arg_cong [OF this(1), of retry_after]
    arg_cong [OF this(2), of u_status]
  show ?thesis by simp
qed

theorem reply_lenient_witness:
  "\<exists>s c u. process_reply sample_ctx (reply_at s) (length s) = (NGX_OK, c, u) \<and> CHR '':'' \<notin> set s
     \<and> u_status u = ST_OK"
proof -
  let ?s = "''5'' @ CRLF @ ''0'' @ CRLF @ CRLF @ CRLF @ ''-'' @ replicate 0 (CHR ''1'') @ CRLF @ CRLF"
  obtain rc c u where "process_reply sample_ctx (reply_at ?s) (length ?s) = (rc, c, u)"
    by (cases "process_reply sample_ctx (reply_at ?s) (length ?s)")
  with reply_lenient [OF fresh_sample_ctx offers_reply_at refl this] show ?thesis
    by (intro exI [of _ ?s] exI [of _ c] exI [of _ u]) simp
qed

section \<open>Bounds\<close>

definition counters_ok :: "rl_ctx \<Rightarrow> bool" where
  "counters_ok c \<longleftrightarrow> unat (limit c) \<le> unat NGX_MAX_INT \<and> unat (remaining c) \<le> unat NGX_MAX_INT
     \<and> unat (reset c) \<le> unat NGX_MAX_INT \<and> -1 \<le> sint (retry_after c)"

lemma sint_nonneg_of_unat: "unat (w :: u64) \<le> unat NGX_MAX_INT \<Longrightarrow> 0 \<le> sint w"
  by (simp add: sint_uint word_size signed_take_bit_int_eq_self uint_nat del: of_nat_unat)

lemma counters_ok_update:
  assumes "counters_ok c"
  shows "unat w \<le> unat NGX_MAX_INT \<Longrightarrow> counters_ok (c\<lparr>limit := w\<rparr>)"
    "unat w \<le> unat NGX_MAX_INT \<Longrightarrow> counters_ok (c\<lparr>remaining := w\<rparr>)"
    "unat w \<le> unat NGX_MAX_INT \<Longrightarrow> counters_ok (c\<lparr>reset := w\<rparr>)"
    "-1 \<le> sint w \<Longrightarrow> counters_ok (c\<lparr>retry_after := w\<rparr>)"
  using assms by (simp_all add: counters_ok_def)

lemma reply_step_counters_ok:
  assumes "counters_ok c"
  shows "counters_ok (fst (snd (outcome_state (reply_step ch (st, c, u)))))"
proof -
  have acc: "unat w \<le> unat NGX_MAX_INT" "-1 \<le> sint w"
    if "is_digit ch" "accum_digit v ch = Some w" for v w
    using accum_digit_Some(2) [OF that] sint_nonneg_of_unat [of w] by auto
  note up = counters_ok_update [OF assms]
  show ?thesis
    using assms up acc
    by (cases st) (simp_all add: Let_def split: option.split)
qed

text \<open>The loop as the handler starts it: on the bytes after \<open>last\<close>, with the offsets moved.\<close>

definition taken :: "upstream \<Rightarrow> nat \<Rightarrow> upstream" where
  "taken u n = u\<lparr>u_buffer := (u_buffer u)\<lparr>b_pos := b_last (u_buffer u), b_last := b_last (u_buffer u) + n\<rparr>\<rparr>"

definition loop_exit :: "rl_ctx \<Rightarrow> upstream \<Rightarrow> nat \<Rightarrow> parse_state outcome" where
  "loop_exit c u n =
     snd (reply_loop (b_data (u_buffer (taken u n))) (b_pos (u_buffer (taken u n))) (state c, c, taken u n))"

lemma process_reply_exit:
  "\<exists>p. process_reply c u n = (case loop_exit c u n of
       Fail (st, c, u) \<Rightarrow> (NGX_ERROR, c, u)
     | Next (st, c, u) \<Rightarrow> (NGX_AGAIN, c\<lparr>state := st\<rparr>, u\<lparr>u_buffer := (u_buffer u)\<lparr>b_pos := p\<rparr>\<rparr>)
     | Done (st, c, u) \<Rightarrow> (NGX_OK, c\<lparr>reply_parsed := True\<rparr>,
         u\<lparr>u_buffer := (u_buffer u)\<lparr>b_pos := p + 1\<rparr>, u_keepalive := True, u_length := 0\<rparr>))"
proof -
  obtain p o' where "reply_loop (b_data (u_buffer (taken u n))) (b_pos (u_buffer (taken u n)))
      (state c, c, taken u n) = (p, o')" by fastforce
  then have "process_reply c u n = (case o' of
       Fail (st, c, u) \<Rightarrow> (NGX_ERROR, c, u)
     | Next (st, c, u) \<Rightarrow> (NGX_AGAIN, c\<lparr>state := st\<rparr>, u\<lparr>u_buffer := (u_buffer u)\<lparr>b_pos := p\<rparr>\<rparr>)
     | Done (st, c, u) \<Rightarrow> (NGX_OK, c\<lparr>reply_parsed := True\<rparr>,
         u\<lparr>u_buffer := (u_buffer u)\<lparr>b_pos := p + 1\<rparr>, u_keepalive := True, u_length := 0\<rparr>))"
    and "loop_exit c u n = o'"
    by (auto simp: process_reply_def loop_exit_def taken_def Let_def split: outcome.splits)
  then show ?thesis by blast
qed

lemma process_reply_Next:
  "loop_exit c u n = Next (st, c1, u1) \<Longrightarrow> \<exists>p. process_reply c u n =
     (NGX_AGAIN, c1\<lparr>state := st\<rparr>, u1\<lparr>u_buffer := (u_buffer u1)\<lparr>b_pos := p\<rparr>\<rparr>)"
  using process_reply_exit [of c u n] by simp

lemma process_reply_Fail:
  "loop_exit c u n = Fail (st, c1, u1) \<Longrightarrow> process_reply c u n = (NGX_ERROR, c1, u1)"
  using process_reply_exit [of c u n] by simp

lemma process_reply_Done:
  "loop_exit c u n = Done (st, c1, u1) \<Longrightarrow> \<exists>p. process_reply c u n =
     (NGX_OK, c1\<lparr>reply_parsed := True\<rparr>,
      u1\<lparr>u_buffer := (u_buffer u1)\<lparr>b_pos := p\<rparr>, u_keepalive := True, u_length := 0\<rparr>)"
  using process_reply_exit [of c u n] by auto

lemma loop_exit_invariant:
  assumes "\<And>ch s. I s \<Longrightarrow> I (outcome_state (reply_step ch s))" and "I (state c, c, taken u n)"
  shows "I (outcome_state (loop_exit c u n))"
  unfolding loop_exit_def using assms by (rule rp.loop_invariant)

text \<open>C25: Overflow safety: whatever bytes arrive, and whether or not the parse succeeds, the counters
  never exceed \<open>NGX_MAX_INT_T_VALUE\<close> and the signed retry value never goes below \<open>-1\<close>.\<close>

theorem reply_counters_bounded:
  assumes "counters_ok c" and "process_reply c u n = (rc, c', u')"
  shows "counters_ok c'"
proof -
  let ?I = "\<lambda>(st, c, u). counters_ok c"
  have "?I (outcome_state (loop_exit c u n))"
    by (rule loop_exit_invariant) (use assms(1) reply_step_counters_ok in \<open>auto simp: split_beta\<close>)
  moreover have "counters_ok (c\<lparr>state := st\<rparr>) = counters_ok c" "counters_ok (c\<lparr>reply_parsed := b\<rparr>) = counters_ok c"
    for c st b by (simp_all add: counters_ok_def)
  ultimately show ?thesis
    using process_reply_exit [of c u n] assms(2) by (cases "loop_exit c u n") (auto simp del: split_paired_All)
qed

theorem reply_counters_bounded_witness:
  "counters_ok (fst (snd (process_reply sample_ctx (reply_at ''5'') 1)))"
proof -
  obtain rc c u where "process_reply sample_ctx (reply_at ''5'') 1 = (rc, c, u)"
    by (cases "process_reply sample_ctx (reply_at ''5'') 1")
  moreover have "counters_ok sample_ctx" by (simp add: counters_ok_def sample_ctx_def zero_ctx_def)
  ultimately show ?thesis using reply_counters_bounded [of sample_ctx "reply_at ''5''" 1 rc c u] by simp
qed

section \<open>What a call leaves untouched\<close>

lemma loop_exit_frame:
  "\<exists>st l m k ra x. outcome_state (loop_exit c u n) =
     (st, c\<lparr>limit := l, remaining := m, reset := k, retry_after := ra\<rparr>, (taken u n)\<lparr>u_status := x\<rparr>)"
proof -
  let ?I = "\<lambda>s :: parse_state. \<exists>st l m k ra x. s =
     (st, c\<lparr>limit := l, remaining := m, reset := k, retry_after := ra\<rparr>, (taken u n)\<lparr>u_status := x\<rparr>)"
  show ?thesis
  proof (rule loop_exit_invariant)
    fix ch s
    assume "?I s"
    then obtain st c1 u1 where s: "s = (st, c1, u1)"
      and c1: "\<exists>l m k ra. c1 = c\<lparr>limit := l, remaining := m, reset := k, retry_after := ra\<rparr>"
      and u1: "\<exists>x. u1 = (taken u n)\<lparr>u_status := x\<rparr>" by blast
    obtain st2 l m k ra x where o: "outcome_state (reply_step ch s) =
        (st2, c1\<lparr>limit := l, remaining := m, reset := k, retry_after := ra\<rparr>, u1\<lparr>u_status := x\<rparr>)"
      unfolding s using reply_step_frame by blast
    moreover have "c1\<lparr>limit := l, remaining := m, reset := k, retry_after := ra\<rparr> =
        c\<lparr>limit := l, remaining := m, reset := k, retry_after := ra\<rparr>" using c1 by auto
    moreover have "u1\<lparr>u_status := x\<rparr> = (taken u n)\<lparr>u_status := x\<rparr>" using u1 by auto
    ultimately show "?I (outcome_state (reply_step ch s))" by auto
  next
    have "c = c\<lparr>limit := limit c, remaining := remaining c, reset := reset c, retry_after := retry_after c\<rparr>"
      "taken u n = (taken u n)\<lparr>u_status := u_status (taken u n)\<rparr>" by auto
    then show "?I (state c, c, taken u n)" by blast
  qed
qed

text \<open>What is left of a context and an upstream when the fields the parser may write are
  erased.\<close>

definition c_rest :: "rl_ctx \<Rightarrow> rl_ctx" where
  "c_rest c = c\<lparr>limit := 0, remaining := 0, reset := 0, retry_after := 0, state := sw_start,
     reply_parsed := False\<rparr>"

definition u_rest :: "upstream \<Rightarrow> upstream" where
  "u_rest u = u\<lparr>u_status := 0, u_buffer := empty_buf, u_keepalive := False, u_length := 0\<rparr>"

lemma process_reply_frame:
  assumes "process_reply c u n = (rc, c', u')"
  shows "rc \<in> {NGX_OK, NGX_AGAIN, NGX_ERROR}"
    and "c_rest c' = c_rest c" and "u_rest u' = u_rest u"
    and "reply_parsed c' \<longleftrightarrow> rc = NGX_OK \<or> reply_parsed c"
    and "u_keepalive u' \<longleftrightarrow> rc = NGX_OK \<or> u_keepalive u"
    and "u_length u' = (if rc = NGX_OK then 0 else u_length u)"
    and "b_mem (u_buffer u') = b_mem (u_buffer u)" and "b_last (u_buffer u') = b_last (u_buffer u) + n"
proof -
  obtain st l m k ra x where o: "outcome_state (loop_exit c u n) =
     (st, c\<lparr>limit := l, remaining := m, reset := k, retry_after := ra\<rparr>, (taken u n)\<lparr>u_status := x\<rparr>)"
    (is "_ = (_, ?c, ?u)")
    using loop_exit_frame by blast
  have "rc \<in> {NGX_OK, NGX_AGAIN, NGX_ERROR} \<and> c_rest c' = c_rest c \<and> u_rest u' = u_rest u
    \<and> (reply_parsed c' \<longleftrightarrow> rc = NGX_OK \<or> reply_parsed c)
    \<and> (u_keepalive u' \<longleftrightarrow> rc = NGX_OK \<or> u_keepalive u)
    \<and> u_length u' = (if rc = NGX_OK then 0 else u_length u)
    \<and> b_mem (u_buffer u') = b_mem (u_buffer u) \<and> b_last (u_buffer u') = b_last (u_buffer u) + n"
  proof (cases "loop_exit c u n")
    case (Next s)
    with o have "loop_exit c u n = Next (st, ?c, ?u)" by simp
    from process_reply_Next [OF this] obtain p where
      "(rc, c', u') = (NGX_AGAIN, ?c\<lparr>state := st\<rparr>, ?u\<lparr>u_buffer := (u_buffer ?u)\<lparr>b_pos := p\<rparr>\<rparr>)"
      unfolding assms by blast
    then show ?thesis by (simp add: c_rest_def u_rest_def taken_def)
  next
    case (Fail s)
    with o have "loop_exit c u n = Fail (st, ?c, ?u)" by simp
    from process_reply_Fail [OF this] have "(rc, c', u') = (NGX_ERROR, ?c, ?u)"
      unfolding assms .
    then show ?thesis by (simp add: c_rest_def u_rest_def taken_def)
  next
    case (Done s)
    with o have "loop_exit c u n = Done (st, ?c, ?u)" by simp
    from process_reply_Done [OF this] obtain p where
      "(rc, c', u') = (NGX_OK, ?c\<lparr>reply_parsed := True\<rparr>,
        ?u\<lparr>u_buffer := (u_buffer ?u)\<lparr>b_pos := p\<rparr>, u_keepalive := True, u_length := 0\<rparr>)"
      unfolding assms by blast
    then show ?thesis by (simp add: c_rest_def u_rest_def taken_def)
  qed
  then show "rc \<in> {NGX_OK, NGX_AGAIN, NGX_ERROR}"
    and "c_rest c' = c_rest c" and "u_rest u' = u_rest u"
    and "reply_parsed c' \<longleftrightarrow> rc = NGX_OK \<or> reply_parsed c"
    and "u_keepalive u' \<longleftrightarrow> rc = NGX_OK \<or> u_keepalive u"
    and "u_length u' = (if rc = NGX_OK then 0 else u_length u)"
    and "b_mem (u_buffer u') = b_mem (u_buffer u)" and "b_last (u_buffer u') = b_last (u_buffer u) + n"
    by blast+
qed

lemma process_reply_status:
  assumes "process_reply c u n = (rc, c', u')" and "u_status u \<in> {ST_OK, ST_TOO_MANY_REQUESTS}"
  shows "u_status u' \<in> {ST_OK, ST_TOO_MANY_REQUESTS}"
proof -
  let ?I = "\<lambda>s :: parse_state. u_status (snd (snd s)) \<in> {ST_OK, ST_TOO_MANY_REQUESTS}"
  have "?I (outcome_state (loop_exit c u n))"
  proof (rule loop_exit_invariant)
    fix ch s
    assume I: "?I s"
    obtain st c1 u1 where s: "s = (st, c1, u1)" by (cases s) auto
    from I show "?I (outcome_state (reply_step ch s))"
      unfolding s by (cases st) (simp_all add: Let_def split: option.split)
  qed (use assms(2) in \<open>simp add: taken_def\<close>)
  then show ?thesis
    using process_reply_exit [of c u n] assms(1) by (cases "loop_exit c u n") auto
qed

end
