(* ===== verification/RL_Request.thy ===== *)
theory RL_Request
  imports RL_Util RL_Script RL_Reply "HOL-Library.Code_Target_Nat"
begin

text \<open>
  The request side of \<open>src/ngx_http_ratelimit_handler.c\<close>: the arguments of the script call, the
  request frame with its AUTH/SELECT prelude, the input filter, the sanitising of text that comes
  from Redis, and the finalisation callback with the response headers and the password wipe.
\<close>

text \<open>What is constant while a request is served: the platform, the script table and the
  location's configuration.\<close>

record env =
  e_p :: platform
  e_scripts :: "script list"
  e_lc :: loc_conf

section \<open>Arguments\<close>

text \<open>\<open>ngx_http_ratelimit_set_uint_arg\<close>; \<open>None\<close> is \<open>NGX_ERROR\<close>.\<close>

definition set_uint_arg :: "platform \<Rightarrow> request \<Rightarrow> u64 \<Rightarrow> ngx_str option \<times> request" where
  "set_uint_arg P r v = (let (ok, r) = alloc r in if \<not> ok then (None, r) else (Some (p_sprintf_ui P v), r))"

text \<open>A chain of \<open>set_uint_arg\<close> calls joined by \<open>||\<close>: the first failure ends it.\<close>

fun set_uint_args :: "platform \<Rightarrow> request \<Rightarrow> u64 list \<Rightarrow> ngx_str list option \<times> request" where
  "set_uint_args P r [] = (Some [], r)"
| "set_uint_args P r (v # vs) =
     (case set_uint_arg P r v of
        (None, r) \<Rightarrow> (None, r)
      | (Some s, r) \<Rightarrow> (case set_uint_args P r vs of
            (None, r) \<Rightarrow> (None, r)
          | (Some ss, r) \<Rightarrow> (Some (s # ss), r)))"

section \<open>The request frame\<close>

text \<open>A per-location burst overrides the zone default.\<close>

definition effective_burst :: "loc_conf \<Rightarrow> zone \<Rightarrow> u64" where
  "effective_burst lc z = (if lc_burst lc = CONF_UNSET then z_burst z else lc_burst lc)"

text \<open>The command and its script: EVALSHA with the digest, or EVAL with the body after NOSCRIPT.\<close>

definition script_args :: "script list \<Rightarrow> zone \<Rightarrow> bool \<Rightarrow> ngx_str list" where
  "script_args T z fallback =
     (if fallback
      then [''EVAL'', if z_algo z = ALGO_CUSTOM then z_script_body z else script_body T (z_algo z)]
      else [''EVALSHA'', if z_algo z = ALGO_CUSTOM then z_script_sha z else script_sha T (z_algo z)])"

definition argv_values :: "loc_conf \<Rightarrow> zone \<Rightarrow> u64 list" where
  "argv_values lc z =
     (let burst = effective_burst lc z in
      if z_algo z = ALGO_FIXED_WINDOW \<or> z_algo z = ALGO_SLIDING_WINDOW
      then [z_requests z + burst, z_period z, lc_quantity lc]
      else [z_requests z, z_period z, burst, lc_quantity lc])"

text \<open>\<open>ngx_http_ratelimit_create_request\<close>.  The caller has checked \<open>rlcf->zone\<close>, so the branch
  without a zone (a null dereference) is not reached.  Linking the new buffer behind the prelude
  changes the chain held in the context too.\<close>

definition create_request :: "env \<Rightarrow> request \<Rightarrow> int \<times> request" where
  "create_request E r =
     (case r_ctx r of None \<Rightarrow> (NGX_ERROR, r) | Some ctx \<Rightarrow>
      case lc_zone (e_lc E) of None \<Rightarrow> (NGX_ERROR, r) | Some z \<Rightarrow>
      case set_uint_args (e_p E) r (argv_values (e_lc E) z) of
        (None, r) \<Rightarrow> (NGX_ERROR, r)
      | (Some as, r) \<Rightarrow>
          (case build_command (e_p E) r
                  (script_args (e_scripts E) z (eval_fallback ctx) @ [''1'', key ctx] @ as) of
             (rc, b, r) \<Rightarrow>
               if rc \<noteq> NGX_OK then (rc, r)
               else case alloc r of (ok, r) \<Rightarrow>
                 if \<not> ok then (NGX_ERROR, r)
                 else
                   let r = r\<lparr>r_pool := (r_pool r)[b := (r_pool r ! b)\<lparr>b_last_buf := True\<rparr>]\<rparr> in
                   if \<not> eval_fallback ctx \<and> prelude_chain ctx \<noteq> []
                   then let chain = prelude_chain ctx @ [b] in
                        (NGX_OK, map_u (\<lambda>u. u\<lparr>u_request_bufs := chain\<rparr>)
                                   (r\<lparr>r_ctx := Some (ctx\<lparr>prelude_chain := chain\<rparr>)\<rparr>))
                   else (NGX_OK, map_u (\<lambda>u. u\<lparr>u_request_bufs := [b]\<rparr>) r)))"

section \<open>The AUTH/SELECT prelude\<close>

text \<open>\<open>ngx_http_ratelimit_append_command\<close>: the buffer and the extended chain, or \<open>None\<close>.\<close>

definition append_command ::
    "platform \<Rightarrow> request \<Rightarrow> nat list \<Rightarrow> ngx_str list \<Rightarrow> (nat \<times> nat list) option \<times> request" where
  "append_command P r chain argv =
     (case build_command P r argv of (rc, b, r) \<Rightarrow>
        if rc \<noteq> NGX_OK then (None, r)
        else case alloc r of (ok, r) \<Rightarrow>
          if \<not> ok then (None, r) else (Some (b, chain @ [b]), r))"

text \<open>The two optional commands of \<open>ngx_http_ratelimit_build_prelude\<close>, each with the chain and
  the reply count built so far.  The AUTH buffer is recorded in the context and gets a pool
  cleanup.\<close>

definition prelude_auth ::
    "env \<Rightarrow> request \<Rightarrow> rl_ctx \<Rightarrow> (nat list \<times> nat) option \<times> rl_ctx \<times> request" where
  "prelude_auth E r ctx =
     (if lc_password (e_lc E) = [] then (Some ([], 0), ctx, r)
      else case append_command (e_p E) r [] [''AUTH'', lc_password (e_lc E)] of
          (None, r) \<Rightarrow> (None, ctx, r)
        | (Some (b, chain), r) \<Rightarrow>
            let ctx = ctx\<lparr>auth_buf := Some b\<rparr>; (ok, r) = alloc r in
            if \<not> ok then (None, ctx, r)
            else (Some (chain, 1), ctx, r\<lparr>r_cleanups := r_cleanups r @ [b]\<rparr>))"

definition prelude_select ::
    "env \<Rightarrow> request \<Rightarrow> nat list \<Rightarrow> nat \<Rightarrow> (nat list \<times> nat) option \<times> request" where
  "prelude_select E r chain count =
     (if sint (lc_database (e_lc E)) \<le> 0 then (Some (chain, count), r)
      else case set_uint_arg (e_p E) r (lc_database (e_lc E)) of
          (None, r) \<Rightarrow> (None, r)
        | (Some db, r) \<Rightarrow>
            (case append_command (e_p E) r chain [''SELECT'', db] of
               (None, r) \<Rightarrow> (None, r)
             | (Some (b, chain), r) \<Rightarrow> (Some (chain, count + 1), r)))"

definition build_prelude :: "env \<Rightarrow> request \<Rightarrow> rl_ctx \<Rightarrow> int \<times> rl_ctx \<times> request" where
  "build_prelude E r ctx =
     (case prelude_auth E r ctx of
        (None, ctx, r) \<Rightarrow> (NGX_ERROR, ctx, r)
      | (Some (chain, count), ctx, r) \<Rightarrow>
          (case prelude_select E r chain count of
             (None, r) \<Rightarrow> (NGX_ERROR, ctx, r)
           | (Some (chain, count), r) \<Rightarrow>
               (NGX_OK, ctx\<lparr>prelude_chain := chain, prelude_replies := count\<rparr>, r)))"

section \<open>Text from Redis\<close>

definition LOG_SANITIZE_MAX :: nat where "LOG_SANITIZE_MAX = 128"

definition printable :: "char \<Rightarrow> bool" where
  "printable ch \<longleftrightarrow> 0x20 \<le> byte ch \<and> byte ch < 0x7f"

text \<open>\<open>ngx_http_ratelimit_sanitize_log_str\<close>.\<close>

definition sanitize_log_str :: "request \<Rightarrow> ngx_str \<Rightarrow> ngx_str \<times> request" where
  "sanitize_log_str r src =
     (let n = (if LOG_SANITIZE_MAX < length src then LOG_SANITIZE_MAX else length src);
          (ok, r) = alloc r
      in if \<not> ok then ([], r)
         else (map (\<lambda>ch. if printable ch then ch else CHR ''.'') (take n src), r))"

text \<open>A reply line without its carriage return, sanitised and logged.\<close>

definition log_reply :: "request \<Rightarrow> ngx_str \<Rightarrow> request" where
  "log_reply r line =
     (let line = (if line \<noteq> [] \<and> last line = CR then butlast line else line);
          (s, r) = sanitize_log_str r line
      in emit (Log_error s) r)"

section \<open>The input filter and the finalisation callback\<close>

text \<open>\<open>ngx_http_ratelimit_filter\<close>: its data is the context.\<close>

definition input_filter :: "request \<Rightarrow> nat \<Rightarrow> int \<times> request" where
  "input_filter r bytes =
     (case r_ctx r of None \<Rightarrow> (NGX_ERROR, r)
      | Some ctx \<Rightarrow>
          (case process_reply ctx (r_u r) bytes of
             (rc, ctx, u) \<Rightarrow> (rc, r\<lparr>r_ctx := Some ctx, r_u := u\<rparr>)))"

definition filter_init :: "request \<Rightarrow> int" where
  "filter_init r = NGX_OK"

definition x_limit_header :: ngx_str where "x_limit_header = ''X-RateLimit-Limit''"
definition x_remaining_header :: ngx_str where "x_remaining_header = ''X-RateLimit-Remaining''"
definition x_reset_header :: ngx_str where "x_reset_header = ''X-RateLimit-Reset''"
definition x_retry_after_header :: ngx_str where "x_retry_after_header = ''Retry-After''"

definition zero_mem :: "ngx_buf \<Rightarrow> ngx_buf" where
  "zero_mem b = b\<lparr>b_mem := replicate (b_end b) (CHR 0x00)\<rparr>"

text \<open>\<open>ngx_http_ratelimit_wipe_auth\<close>: the pool cleanup handler.\<close>

definition wipe_auth :: "nat \<Rightarrow> request \<Rightarrow> request" where
  "wipe_auth a r = r\<lparr>r_pool := (r_pool r)[a := zero_mem (r_pool r ! a)]\<rparr>"

text \<open>The headers of \<open>ngx_http_ratelimit_finalize_request\<close>; the results of the calls are
  ignored.\<close>

definition headers_due :: "loc_conf \<Rightarrow> rl_ctx \<Rightarrow> upstream \<Rightarrow> bool" where
  "headers_due lc ctx u \<longleftrightarrow> reply_parsed ctx \<and>
     (u_status u = ST_TOO_MANY_REQUESTS \<or> (lc_enable_headers lc \<noteq> 0 \<and> u_status u = ST_OK))"

definition emit_headers :: "platform \<Rightarrow> request \<Rightarrow> rl_ctx \<Rightarrow> request" where
  "emit_headers P r ctx =
     (let r = snd (set_custom_header P r x_limit_header (limit ctx));
          r = snd (set_custom_header P r x_remaining_header (remaining ctx));
          r = snd (set_custom_header P r x_reset_header (reset ctx))
      in if sint (retry_after ctx) \<noteq> -1
         then snd (set_custom_header P r x_retry_after_header (retry_after ctx))
         else r)"

text \<open>\<open>ngx_http_ratelimit_finalize_request\<close>; its \<open>rc\<close> argument is only logged.\<close>

definition finalize_request :: "env \<Rightarrow> request \<Rightarrow> request" where
  "finalize_request E r =
     (case r_ctx r of None \<Rightarrow> r
      | Some ctx \<Rightarrow>
          let r = (if headers_due (e_lc E) ctx (r_u r) then emit_headers (e_p E) r ctx else r);
              (ctx, r) = (case auth_buf ctx of None \<Rightarrow> (ctx, r)
                          | Some a \<Rightarrow> (ctx\<lparr>auth_buf := None\<rparr>, wipe_auth a r))
          in r\<lparr>r_ctx := Some (ctx\<lparr>finalized := True\<rparr>)\<rparr>)"

section \<open>What the operations leave alone\<close>

lemma same_core_set_uint_arg: "set_uint_arg P r v = (s, r') \<Longrightarrow> same_core r r'"
  by (auto simp: set_uint_arg_def split: prod.splits if_splits dest: same_core_alloc)

lemma same_core_set_uint_args: "set_uint_args P r vs = (ss, r') \<Longrightarrow> same_core r r'"
  by (induction vs arbitrary: r ss r')
    (auto split: prod.splits option.splits dest!: same_core_set_uint_arg intro: same_core_trans)

lemma same_core_sanitize: "sanitize_log_str r src = (s, r') \<Longrightarrow> same_core r r'"
  by (auto simp: sanitize_log_str_def Let_def split: prod.splits if_splits dest: same_core_alloc)

lemma same_core_log_reply: "same_core r (log_reply r line)"
  by (auto simp: log_reply_def Let_def split: prod.splits dest: same_core_sanitize)

lemmas log_reply_fields [simp] = same_core_fields [OF same_core_log_reply]

text \<open>Building the frame changes the context only in its prelude chain, and the upstream only in
  its request buffers.\<close>

definition ctx_sans_chain :: "request \<Rightarrow> rl_ctx option" where
  "ctx_sans_chain r = map_option (\<lambda>c. c\<lparr>prelude_chain := []\<rparr>) (r_ctx r)"

definition u_sans_bufs :: "request \<Rightarrow> upstream" where
  "u_sans_bufs r = (r_u r)\<lparr>u_request_bufs := []\<rparr>"

lemma create_request_frame:
  assumes "create_request E r = (rc, r')"
  shows "ctx_sans_chain r' = ctx_sans_chain r \<and> u_sans_bufs r' = u_sans_bufs r
    \<and> (rc \<noteq> NGX_OK \<longrightarrow> same_core r r') \<and> rc \<in> {NGX_OK, NGX_ERROR}
    \<and> r_headers_out r' = r_headers_out r \<and> r_done r' = r_done r"
proof -
  have bc: "same_core r r' \<and> (rc = NGX_OK \<or> rc = NGX_ERROR)"
    if "build_command P r argv = (rc, a, r')" for P r argv rc a r'
    using that same_core_build_command [OF that]
    by (auto simp: build_command_def Let_def split: prod.splits if_splits)
  show ?thesis
    using assms
    by (auto simp: create_request_def ctx_sans_chain_def u_sans_bufs_def Let_def
        split: option.splits prod.splits if_splits
        dest!: same_core_set_uint_args bc same_core_alloc simp: same_core_def)
qed

section \<open>The commands on the wire\<close>

text \<open>The bytes a chain of buffers holds, and the argument vectors of the three commands.\<close>

definition chain_data :: "request \<Rightarrow> nat list \<Rightarrow> ngx_str" where
  "chain_data r chain = concat (map (\<lambda>a. b_data (r_pool r ! a)) chain)"

definition auth_argv :: "loc_conf \<Rightarrow> ngx_str list" where
  "auth_argv lc = [''AUTH'', lc_password lc]"

definition select_argv :: "loc_conf \<Rightarrow> ngx_str list" where
  "select_argv lc = [''SELECT'', dec (unat (lc_database lc))]"

definition prelude_argvs :: "loc_conf \<Rightarrow> ngx_str list list" where
  "prelude_argvs lc = (if lc_password lc = [] then [] else [auth_argv lc]) @
     (if sint (lc_database lc) \<le> 0 then [] else [select_argv lc])"

definition eval_argv :: "env \<Rightarrow> zone \<Rightarrow> bool \<Rightarrow> ngx_str \<Rightarrow> ngx_str list" where
  "eval_argv E z fallback k =
     script_args (e_scripts E) z fallback @ [''1'', k] @ map (\<lambda>v. dec (unat v)) (argv_values (e_lc E) z)"

text \<open>The command fits into the address space, so its size does not wrap.\<close>

definition fits :: "platform \<Rightarrow> ngx_str list \<Rightarrow> bool" where
  "fits P argv \<longleftrightarrow> length (command_bytes P argv) < 2 ^ 64"

text \<open>The server's reading of a byte stream as a sequence of commands.\<close>

fun decode_stream :: "nat \<Rightarrow> ngx_str \<Rightarrow> ngx_str list list option" where
  "decode_stream 0 s = (if s = [] then Some [] else None)"
| "decode_stream (Suc k) s =
     Option.bind (decode_command s) (\<lambda>(argv, t). map_option ((#) argv) (decode_stream k t))"

lemma decode_stream_commands:
  assumes "decimal_sprintf P" and "\<forall>argv \<in> set argvs. fits P argv"
  shows "decode_stream (length argvs) (concat (map (command_bytes P) argvs)) = Some argvs"
  using assms(2)
proof (induction argvs)
  case (Cons argv argvs)
  then have "length (command_bytes P argv) < 2 ^ 64" by (simp add: fits_def)
  from decode_command_bytes [OF assms(1) this, of "concat (map (command_bytes P) argvs)"] Cons
  show ?case by simp
qed simp

lemma chain_data_simps [simp]:
  "chain_data r [] = []"
  "chain_data r (a # chain) = b_data (r_pool r ! a) @ chain_data r chain"
  "chain_data r (xs @ ys) = chain_data r xs @ chain_data r ys"
  by (simp_all add: chain_data_def)

lemma chain_data_cong:
  "(\<And>a. a \<in> set chain \<Longrightarrow> b_data (r_pool r' ! a) = b_data (r_pool r ! a)) \<Longrightarrow>
   chain_data r' chain = chain_data r chain"
  by (induction chain) auto

lemma chain_data_extend:
  assumes "r_pool r' = r_pool r @ bs" and "\<forall>a \<in> set chain. a < length (r_pool r)"
  shows "chain_data r' chain = chain_data r chain"
  using assms by (intro chain_data_cong) (simp add: nth_append)

lemma alloc_pool: "alloc r = (ok, r') \<Longrightarrow> r_pool r' = r_pool r \<and> r_cleanups r' = r_cleanups r"
  by (auto simp: alloc_def split: list.splits)

lemma set_uint_arg_Some:
  "set_uint_arg P r v = (Some s, r') \<Longrightarrow> s = p_sprintf_ui P v \<and> r_pool r' = r_pool r"
  by (auto simp: set_uint_arg_def split: prod.splits if_splits dest: alloc_pool)

lemma set_uint_args_Some:
  "set_uint_args P r vs = (Some ss, r') \<Longrightarrow> ss = map (p_sprintf_ui P) vs \<and> r_pool r' = r_pool r"
  by (induction vs arbitrary: r ss r') (auto split: prod.splits option.splits dest!: set_uint_arg_Some)

lemma build_command_OK:
  assumes "decimal_sprintf P" "fits P argv" "build_command P r argv = (NGX_OK, b, r')"
  shows "b = length (r_pool r) \<and> r_pool r' = r_pool r @ [frame_buf (command_bytes P argv)]"
proof -
  have "r_pool (snd (alloc r)) = r_pool r" using alloc_pool [of r] by (cases "alloc r") auto
  with assms show ?thesis
    by (auto simp: fits_def build_command_eq split: if_splits)
qed

lemma append_command_Some:
  assumes "decimal_sprintf P" "fits P argv" "append_command P r chain argv = (Some (b, chain'), r')"
  shows "b = length (r_pool r) \<and> chain' = chain @ [b]
    \<and> r_pool r' = r_pool r @ [frame_buf (command_bytes P argv)]"
  using assms
  by (auto simp: append_command_def split: prod.splits if_splits dest!: build_command_OK alloc_pool)

definition chain_in :: "request \<Rightarrow> nat list \<Rightarrow> bool" where
  "chain_in r chain \<longleftrightarrow> (\<forall>a \<in> set chain. a < length (r_pool r))"

lemma prelude_auth_Some:
  assumes "decimal_sprintf (e_p E)" "fits (e_p E) (auth_argv (e_lc E))"
    and "prelude_auth E r ctx = (Some (chain, count), ctx', r')"
  defines "cmds \<equiv> (if lc_password (e_lc E) = [] then [] else [auth_argv (e_lc E)])"
  shows "chain_in r' chain \<and> count = length cmds \<and> (\<exists>bs. r_pool r' = r_pool r @ bs)
    \<and> chain_data r' chain = concat (map (command_bytes (e_p E)) cmds)"
  using assms
  by (auto simp: prelude_auth_def auth_argv_def chain_in_def Let_def nth_append split: prod.splits option.splits if_splits
      dest!: append_command_Some alloc_pool)

lemma prelude_select_Some:
  assumes P: "decimal_sprintf (e_p E)" "fits (e_p E) (select_argv (e_lc E))"
    and "prelude_select E r chain count = (Some (chain', count'), r')" and "chain_in r chain"
  defines "cmds \<equiv> (if sint (lc_database (e_lc E)) \<le> 0 then [] else [select_argv (e_lc E)])"
  shows "chain_in r' chain' \<and> count' = count + length cmds \<and> (\<exists>bs. r_pool r' = r_pool r @ bs)
    \<and> chain_data r' chain' = chain_data r chain @ concat (map (command_bytes (e_p E)) cmds)"
proof (cases "sint (lc_database (e_lc E)) \<le> 0")
  case True
  with assms show ?thesis by (auto simp: prelude_select_def)
next
  case False
  then obtain db r1 b where db: "set_uint_arg (e_p E) r (lc_database (e_lc E)) = (Some db, r1)"
    and ap: "append_command (e_p E) r1 chain [''SELECT'', db] = (Some (b, chain'), r')"
    and count: "count' = count + 1"
    using assms(3) by (auto simp: prelude_select_def split: prod.splits option.splits if_splits)
  from set_uint_arg_Some [OF db] P(1) have "db = dec (unat (lc_database (e_lc E)))" "r_pool r1 = r_pool r"
    by (auto simp: decimal_sprintf_def)
  with append_command_Some [OF P(1) _ ap] P(2) have b: "b = length (r_pool r)" "chain' = chain @ [b]"
    and pool: "r_pool r' = r_pool r @ [frame_buf (command_bytes (e_p E) (select_argv (e_lc E)))]"
    by (auto simp: select_argv_def)
  have "chain_data r' chain = chain_data r chain"
    using pool assms(4) by (intro chain_data_extend) (auto simp: chain_in_def)
  with b pool count False assms(4) show ?thesis
    by (auto simp: cmds_def chain_in_def nth_append)
qed

lemma b_data_last_buf [simp]: "b_data (b\<lparr>b_last_buf := v\<rparr>) = b_data b"
  by (simp add: b_data_def)

lemma prelude_select_chain:
  "prelude_select E r chain count = (Some (chain', count'), r') \<Longrightarrow> count' \<noteq> 0 \<or> chain' = chain"
  by (auto simp: prelude_select_def split: prod.splits option.splits if_splits)

text \<open>What a prelude built without error holds.\<close>

lemma build_prelude_OK:
  assumes P: "decimal_sprintf (e_p E)" and fits: "\<forall>argv \<in> set (prelude_argvs (e_lc E)). fits (e_p E) argv"
    and bp: "build_prelude E r ctx = (NGX_OK, ctx', r')"
  shows "chain_in r' (prelude_chain ctx')
    \<and> prelude_replies ctx' = length (prelude_argvs (e_lc E))
    \<and> chain_data r' (prelude_chain ctx') = concat (map (command_bytes (e_p E)) (prelude_argvs (e_lc E)))"
proof -
  obtain chain count ctx1 r1 chain2 count2
    where a: "prelude_auth E r ctx = (Some (chain, count), ctx1, r1)"
      and s: "prelude_select E r1 chain count = (Some (chain2, count2), r')"
      and ctx': "ctx' = ctx1\<lparr>prelude_chain := chain2, prelude_replies := count2\<rparr>"
    using bp by (auto simp: build_prelude_def split: prod.splits option.splits)
  have "lc_password (e_lc E) \<noteq> [] \<Longrightarrow> fits (e_p E) (auth_argv (e_lc E))"
    "\<not> sint (lc_database (e_lc E)) \<le> 0 \<Longrightarrow> fits (e_p E) (select_argv (e_lc E))"
    using fits by (auto simp: prelude_argvs_def)
  note auth = this(1) and sel = this(2)
  have A: "chain_in r1 chain \<and> count = length (if lc_password (e_lc E) = [] then [] else [auth_argv (e_lc E)])
    \<and> chain_data r1 chain = concat (map (command_bytes (e_p E))
        (if lc_password (e_lc E) = [] then [] else [auth_argv (e_lc E)]))"
  proof (cases "lc_password (e_lc E) = []")
    case True
    with a show ?thesis by (auto simp: prelude_auth_def chain_in_def)
  next
    case False
    from prelude_auth_Some [OF P auth [OF False] a] show ?thesis by blast
  qed
  show ?thesis
  proof (cases "sint (lc_database (e_lc E)) \<le> 0")
    case True
    with s A ctx' show ?thesis by (auto simp: prelude_select_def prelude_argvs_def)
  next
    case False
    from prelude_select_Some [OF P sel [OF False] s] A ctx' False show ?thesis
      by (auto simp: prelude_argvs_def)
  qed
qed

text \<open>What a request frame built without error holds.\<close>

lemma create_request_OK:
  assumes P: "decimal_sprintf (e_p E)" and "r_ctx r = Some ctx" "lc_zone (e_lc E) = Some z"
    and fit: "fits (e_p E) (eval_argv E z (eval_fallback ctx) (key ctx))"
    and chain: "chain_in r (prelude_chain ctx)"
    and cr: "create_request E r = (NGX_OK, r')"
  shows "chain_data r' (u_request_bufs (r_u r')) =
      (if eval_fallback ctx then [] else chain_data r (prelude_chain ctx))
      @ command_bytes (e_p E) (eval_argv E z (eval_fallback ctx) (key ctx))"
proof -
  let ?argv = "eval_argv E z (eval_fallback ctx) (key ctx)"
  have vals: "map (p_sprintf_ui (e_p E)) vs = map (\<lambda>v. dec (unat v)) vs" for vs
    using P by (simp add: decimal_sprintf_def)
  obtain oas r1 where a: "set_uint_args (e_p E) r (argv_values (e_lc E) z) = (oas, r1)"
    by (cases "set_uint_args (e_p E) r (argv_values (e_lc E) z)") simp
  have oas: "oas \<noteq> None"
    using cr assms(2,3) a by (cases oas) (auto simp: create_request_def)
  then have args: "set_uint_args (e_p E) r (argv_values (e_lc E) z)
      = (Some (map (\<lambda>v. dec (unat v)) (argv_values (e_lc E) z)), r1)"
    using a set_uint_args_Some [of "e_p E" r "argv_values (e_lc E) z" _ r1] vals by auto
  obtain rc b r2 where bc0: "build_command (e_p E) r1 ?argv = (rc, b, r2)"
    by (cases "build_command (e_p E) r1 ?argv") simp
  obtain ok r3 where al0: "alloc r2 = (ok, r3)" by (cases "alloc r2") simp
  have "rc = NGX_OK" "ok"
    using cr assms(2,3) args bc0 al0
    by (simp_all add: create_request_def eval_argv_def split: if_splits)
  then have bc: "build_command (e_p E) r1 ?argv = (NGX_OK, b, r2)" and al: "alloc r2 = (True, r3)"
    using bc0 al0 by simp_all
  from build_command_OK [OF P fit bc] set_uint_args_Some [OF args] alloc_pool [OF al]
  have b: "b = length (r_pool r)" and pool: "r_pool r3 = r_pool r @ [frame_buf (command_bytes (e_p E) ?argv)]"
    by auto
  let ?r4 = "r3\<lparr>r_pool := (r_pool r3)[b := (r_pool r3 ! b)\<lparr>b_last_buf := True\<rparr>]\<rparr>"
  have rp: "r_pool r' = r_pool ?r4"
    and bufs: "u_request_bufs (r_u r') = (if eval_fallback ctx then [] else prelude_chain ctx) @ [b]"
    using cr assms(2,3) args bc al
    by (auto simp: create_request_def Let_def eval_argv_def split: if_splits)
  have "chain_data r' (prelude_chain ctx) = chain_data r (prelude_chain ctx)"
    using rp pool b chain by (intro chain_data_cong) (auto simp: chain_in_def nth_append)
  moreover have "b_data (r_pool r' ! b) = command_bytes (e_p E) ?argv"
    using rp pool b by simp
  ultimately show ?thesis by (simp add: bufs)
qed

text \<open>Without a failing allocation every step succeeds.\<close>

lemma alloc_Nil: "r_allocs r = [] \<Longrightarrow> alloc r = (True, r)" by (simp add: alloc_def)

lemma build_command_no_failure:
  assumes "decimal_sprintf P" "fits P argv" "r_allocs r = []"
  shows "build_command P r argv = (NGX_OK, length (r_pool r),
     r\<lparr>r_pool := r_pool r @ [frame_buf (command_bytes P argv)]\<rparr>)"
  using assms by (simp add: build_command_eq fits_def alloc_Nil)

lemma set_uint_args_no_failure:
  assumes "decimal_sprintf P" "r_allocs r = []"
  shows "set_uint_args P r vs = (Some (map (\<lambda>v. dec (unat v)) vs), r)"
  using assms by (induction vs) (simp_all add: set_uint_arg_def alloc_Nil decimal_sprintf_def)

lemma build_prelude_no_failure:
  assumes "decimal_sprintf (e_p E)" and "\<forall>argv \<in> set (prelude_argvs (e_lc E)). fits (e_p E) argv"
    and "r_allocs r = []" and bp: "build_prelude E r ctx = (rc, ctx', r')"
  shows "rc = NGX_OK \<and> key ctx' = key ctx \<and> eval_fallback ctx' = eval_fallback ctx \<and> r_allocs r' = []
    \<and> same_core r r'"
proof -
  have f: "lc_password (e_lc E) \<noteq> [] \<Longrightarrow> fits (e_p E) (auth_argv (e_lc E))"
    "\<not> sint (lc_database (e_lc E)) \<le> 0 \<Longrightarrow> fits (e_p E) (select_argv (e_lc E))"
    using assms(2) by (auto simp: prelude_argvs_def)
  show ?thesis
    using bp f assms(1,3)
    by (auto simp: build_prelude_def prelude_auth_def prelude_select_def append_command_def alloc_Nil
       build_command_no_failure auth_argv_def select_argv_def set_uint_arg_def decimal_sprintf_def Let_def
       split: if_splits prod.splits)
qed

lemma create_request_no_failure:
  assumes "decimal_sprintf (e_p E)" "lc_zone (e_lc E) = Some z" "r_ctx r = Some ctx"
    and "fits (e_p E) (eval_argv E z (eval_fallback ctx) (key ctx))" and "r_allocs r = []"
  shows "fst (create_request E r) = NGX_OK \<and> r_allocs (snd (create_request E r)) = []"
  using assms
  by (simp add: create_request_def set_uint_args_no_failure eval_argv_def build_command_no_failure alloc_Nil Let_def)

section \<open>What reaches Redis\<close>

definition sample_env :: env where
  "sample_env = \<lparr>e_p = ascii_platform, e_scripts = [], e_lc = sample_lc\<rparr>"

text \<open>The frame of a check decodes to the prelude commands and the script call.\<close>

lemma request_decodes:
  assumes "decimal_sprintf (e_p E)" and "lc_zone (e_lc E) = Some z"
    and "\<forall>argv \<in> set (prelude_argvs (e_lc E) @ [eval_argv E z False (key ctx')]). fits (e_p E) argv"
    and "build_prelude E r ctx = (NGX_OK, ctx', r1)"
    and "r_pool r2 = r_pool r1 @ bs" "r_ctx r2 = Some ctx'" "\<not> eval_fallback ctx'"
    and "create_request E r2 = (NGX_OK, r3)"
  shows "decode_stream (prelude_replies ctx' + 1) (chain_data r3 (u_request_bufs (r_u r3)))
      = Some (prelude_argvs (e_lc E) @ [eval_argv E z False (key ctx')])"
proof -
  let ?argvs = "prelude_argvs (e_lc E) @ [eval_argv E z False (key ctx')]"
  have bp: "chain_in r1 (prelude_chain ctx')" "prelude_replies ctx' = length (prelude_argvs (e_lc E))"
    "chain_data r1 (prelude_chain ctx') = concat (map (command_bytes (e_p E)) (prelude_argvs (e_lc E)))"
    using build_prelude_OK [OF assms(1) _ assms(4)] assms(3) by simp_all
  have "chain_data r2 (prelude_chain ctx') = chain_data r1 (prelude_chain ctx')"
    using bp(1) assms(5) by (intro chain_data_extend) (auto simp: chain_in_def)
  moreover have "chain_in r2 (prelude_chain ctx')"
    using bp(1) assms(5) by (auto simp: chain_in_def)
  ultimately have "chain_data r3 (u_request_bufs (r_u r3)) = concat (map (command_bytes (e_p E)) ?argvs)"
    using create_request_OK [OF assms(1,6,2) _ _ assms(8)] assms(3,7) bp(3) by simp
  with decode_stream_commands [OF assms(1,3)] bp(2) show ?thesis by simp
qed

text \<open>C10: What a worker sends for a rate check.  The prelude built by \<open>build_prelude\<close> and the frame
  built by \<open>create_request\<close> put together decode to AUTH with the password if there is one,
  SELECT with the database if it is positive, and last the EVALSHA call with the key and the
  numeric arguments; and the number of replies the context then expects before the script's is the
  number of prelude commands.  The pool may have grown between the two calls.\<close>

theorem request_on_the_wire:
  assumes "decimal_sprintf (e_p E)" and "lc_zone (e_lc E) = Some z"
    and "\<forall>argv \<in> set (prelude_argvs (e_lc E) @ [eval_argv E z False (key ctx')]). fits (e_p E) argv"
    and "build_prelude E r ctx = (NGX_OK, ctx', r1)"
    and "r_pool r2 = r_pool r1 @ bs" "r_ctx r2 = Some ctx'" "\<not> eval_fallback ctx'"
    and "create_request E r2 = (NGX_OK, r3)"
  shows "decode_stream (prelude_replies ctx' + 1) (chain_data r3 (u_request_bufs (r_u r3)))
      = Some (prelude_argvs (e_lc E) @ [eval_argv E z False (key ctx')])"
  using assms by (rule request_decodes)

text \<open>C33: The EVAL fallback sends one command and no more: after NOSCRIPT the frame decodes to the
  EVAL call with the script's body; the password and the SELECT are never sent a second time.\<close>

theorem eval_resend_on_the_wire:
  assumes "decimal_sprintf (e_p E)" and "lc_zone (e_lc E) = Some z" and "r_ctx r = Some ctx"
    and "eval_fallback ctx" and "fits (e_p E) (eval_argv E z True (key ctx))"
    and "chain_in r (prelude_chain ctx)" and "create_request E r = (NGX_OK, r')"
  shows "decode_stream 1 (chain_data r' (u_request_bufs (r_u r'))) = Some [eval_argv E z True (key ctx)]
    \<and> hd (eval_argv E z True (key ctx)) = ''EVAL''"
proof -
  have "chain_data r' (u_request_bufs (r_u r')) = command_bytes (e_p E) (eval_argv E z True (key ctx))"
    using create_request_OK [OF assms(1,3,2) _ assms(6,7)] assms(4,5) by simp
  with decode_stream_commands [of "e_p E" "[eval_argv E z True (key ctx)]"] assms(1,5)
  show ?thesis by (simp add: eval_argv_def script_args_def)
qed

text \<open>A command of moderate size fits.\<close>

lemma args_bytes_bound:
  assumes "decimal_sprintf P"
  shows "length (args_bytes P argv) \<le> sum_list (map (\<lambda>a. length a + 25) argv)"
proof (induction argv)
  case (Cons a argv)
  have "length (dec (unat (str_len a))) \<le> 20"
    using unat_lt_2p64 [of "str_len a"] by (intro dec_length_bound) auto
  with Cons show ?case using assms by (simp add: decimal_sprintf_def)
qed simp

lemma fits_bound:
  assumes "decimal_sprintf P" and "sum_list (map (\<lambda>a. length a + 25) argv) < 2 ^ 63"
  shows "fits P argv"
proof -
  have "length (dec (unat (of_nat (length argv) :: u64))) \<le> 20"
    using unat_lt_2p64 [of "of_nat (length argv)"] by (intro dec_length_bound) auto
  with args_bytes_bound [OF assms(1), of argv] assms show ?thesis
    by (simp add: fits_def command_bytes_def decimal_sprintf_def)
qed

lemma sample_env_simps [simp]:
  "decimal_sprintf (e_p sample_env)" "lc_zone (e_lc sample_env) = Some sample_zone"
  "r_allocs sample_request = []" "r_ctx sample_request = Some sample_ctx"
  "key sample_ctx = ''user:1''" "\<not> eval_fallback sample_ctx" "prelude_chain sample_ctx = []"
  by (simp_all add: sample_env_def) (simp_all add: sample_defs)

lemma sample_argvs:
  "prelude_argvs (e_lc sample_env) = [[''AUTH'', ''pw''], [''SELECT'', ''2'']]"
  "eval_argv sample_env sample_zone False ''user:1'' =
     [''EVALSHA'', ''abc'', ''1'', ''user:1'', ''10'', ''60'', ''5'', ''1'']"
  "eval_argv sample_env sample_zone True ''user:1'' =
     [''EVAL'', ''return 1'', ''1'', ''user:1'', ''10'', ''60'', ''5'', ''1'']"
  by (simp_all add: prelude_argvs_def auth_argv_def select_argv_def eval_argv_def script_args_def
      argv_values_def effective_burst_def sample_env_def sample_lc_def sample_zone_def dec.simps)

lemma sample_fits:
  "\<forall>argv \<in> set (prelude_argvs (e_lc sample_env) @
     [eval_argv sample_env sample_zone False ''user:1'', eval_argv sample_env sample_zone True ''user:1'']).
     fits (e_p sample_env) argv"
  by (auto simp: sample_argvs intro!: fits_bound)

theorem request_on_the_wire_witness:
  "\<exists>n r. decode_stream n (chain_data r (u_request_bufs (r_u r))) =
     Some [[''AUTH'', ''pw''], [''SELECT'', ''2''],
           [''EVALSHA'', ''abc'', ''1'', ''user:1'', ''10'', ''60'', ''5'', ''1'']]"
proof -
  obtain rc ctx r1 where bp: "build_prelude sample_env sample_request sample_ctx = (rc, ctx, r1)"
    by (cases "build_prelude sample_env sample_request sample_ctx") simp
  have ok: "rc = NGX_OK" "key ctx = ''user:1''" "\<not> eval_fallback ctx" "r_allocs r1 = []"
    using build_prelude_no_failure [OF _ _ _ bp] sample_fits by simp_all
  obtain rc3 r3 where cr: "create_request sample_env (r1\<lparr>r_ctx := Some ctx\<rparr>) = (rc3, r3)"
    by (cases "create_request sample_env (r1\<lparr>r_ctx := Some ctx\<rparr>)") simp
  have "rc3 = NGX_OK"
    using create_request_no_failure [of sample_env sample_zone "r1\<lparr>r_ctx := Some ctx\<rparr>" ctx]
      sample_fits ok cr by simp
  then have "decode_stream (prelude_replies ctx + 1) (chain_data r3 (u_request_bufs (r_u r3))) =
      Some (prelude_argvs (e_lc sample_env) @ [eval_argv sample_env sample_zone False (key ctx)])"
    using bp cr ok sample_fits
    by (intro request_on_the_wire [where ?r2.0 = "r1\<lparr>r_ctx := Some ctx\<rparr>" and bs = "[]"]) auto
  then show ?thesis by (auto simp add: ok sample_argvs simp del: decode_stream.simps)
qed

theorem eval_resend_on_the_wire_witness:
  "\<exists>r. decode_stream 1 (chain_data r (u_request_bufs (r_u r))) =
     Some [[''EVAL'', ''return 1'', ''1'', ''user:1'', ''10'', ''60'', ''5'', ''1'']]"
proof -
  let ?ctx = "sample_ctx\<lparr>eval_fallback := True\<rparr>"
  let ?r = "sample_request\<lparr>r_ctx := Some ?ctx\<rparr>"
  obtain rc r' where cr: "create_request sample_env ?r = (rc, r')"
    by (cases "create_request sample_env ?r") simp
  have "rc = NGX_OK"
    using create_request_no_failure [of sample_env sample_zone ?r ?ctx] sample_fits cr by simp
  with cr sample_fits have "decode_stream 1 (chain_data r' (u_request_bufs (r_u r'))) =
      Some [eval_argv sample_env sample_zone True (key ?ctx)]"
    using eval_resend_on_the_wire [of sample_env sample_zone ?r ?ctx r'] by (simp add: chain_in_def)
  then show ?thesis using sample_argvs by auto
qed

section \<open>The database a check runs in\<close>

text \<open>What Redis documents of a connection: it has a selected database, which \<open>SELECT\<close> changes and
  which lasts, and a script call runs in the database selected when it arrives.  The result lists the
  script calls with the database of each.\<close>

fun session_run :: "nat \<Rightarrow> ngx_str list list \<Rightarrow> (nat \<times> ngx_str list) list" where
  "session_run d [] = []"
| "session_run d (argv # rest) =
     (if hd argv = ''SELECT'' then session_run (dec_value (argv ! 1)) rest
      else if hd argv = ''EVALSHA'' \<or> hd argv = ''EVAL'' then (d, argv) # session_run d rest
      else session_run d rest)"

text \<open>C22: The database a check runs in: on a connection that was left in database \<open>d\<close>, a check runs in the
  configured database if that is positive, and in \<open>d\<close> otherwise.  A location without
  \<open>ratelimit_database\<close>, or with \<open>ratelimit_database 0\<close>, does not select database 0: on a kept-alive
  connection it counts in whatever database the location before it selected.\<close>

theorem check_runs_in_database:
  assumes "decimal_sprintf (e_p E)" and "lc_zone (e_lc E) = Some z"
    and "\<forall>argv \<in> set (prelude_argvs (e_lc E) @ [eval_argv E z False (key ctx')]). fits (e_p E) argv"
    and "build_prelude E r ctx = (NGX_OK, ctx', r1)"
    and "r_pool r2 = r_pool r1 @ bs" "r_ctx r2 = Some ctx'" "\<not> eval_fallback ctx'"
    and "create_request E r2 = (NGX_OK, r3)"
  shows "map_option (session_run d) (decode_stream (prelude_replies ctx' + 1) (chain_data r3 (u_request_bufs (r_u r3))))
    = Some [(if 0 < sint (lc_database (e_lc E)) then unat (lc_database (e_lc E)) else d,
             eval_argv E z False (key ctx'))]"
  unfolding request_decodes [OF assms]
  by (auto simp: prelude_argvs_def auth_argv_def select_argv_def eval_argv_def script_args_def)

theorem check_runs_in_database_witness:
  "\<exists>n r argv. map_option (session_run 2) (decode_stream n (chain_data r (u_request_bufs (r_u r)))) = Some [(2, argv)]"
proof -
  let ?E = "sample_env\<lparr>e_lc := sample_lc\<lparr>lc_password := [], lc_database := 0\<rparr>\<rparr>"
  have E: "decimal_sprintf (e_p ?E)" "lc_zone (e_lc ?E) = Some sample_zone" "prelude_argvs (e_lc ?E) = []"
    "eval_argv ?E sample_zone False ''user:1'' = eval_argv sample_env sample_zone False ''user:1''"
    by (simp_all add: sample_env_def sample_lc_def prelude_argvs_def eval_argv_def argv_values_def
        effective_burst_def Let_def)
  have fit: "fits (e_p ?E) (eval_argv ?E sample_zone False ''user:1'')"
    using sample_fits E(4) by simp
  obtain rc ctx r1 where bp: "build_prelude ?E sample_request sample_ctx = (rc, ctx, r1)"
    by (cases "build_prelude ?E sample_request sample_ctx") simp
  have ok: "rc = NGX_OK" "key ctx = ''user:1''" "\<not> eval_fallback ctx" "r_allocs r1 = []"
    using build_prelude_no_failure [OF E(1) _ _ bp] E(3) by simp_all
  obtain rc3 r3 where cr: "create_request ?E (r1\<lparr>r_ctx := Some ctx\<rparr>) = (rc3, r3)"
    by (cases "create_request ?E (r1\<lparr>r_ctx := Some ctx\<rparr>)") simp
  have "rc3 = NGX_OK"
    using create_request_no_failure [of ?E sample_zone "r1\<lparr>r_ctx := Some ctx\<rparr>" ctx] E fit ok cr by simp
  then have "map_option (session_run 2) (decode_stream (prelude_replies ctx + 1) (chain_data r3 (u_request_bufs (r_u r3))))
    = Some [(if 0 < sint (lc_database (e_lc ?E)) then unat (lc_database (e_lc ?E)) else 2,
             eval_argv ?E sample_zone False (key ctx))]"
    using bp cr ok fit E
    by (intro check_runs_in_database [where ?r2.0 = "r1\<lparr>r_ctx := Some ctx\<rparr>" and bs = "[]"]) auto
  moreover have "\<not> 0 < sint (lc_database (e_lc ?E))" by (simp add: sample_env_def)
  ultimately show ?thesis by (simp only: if_False) blast
qed

section \<open>The finalisation callback\<close>

lemma set_custom_header_frame:
  assumes "set_custom_header P r k v = (rc, r')"
  shows "r_pool r' = r_pool r \<and> r_ctx r' = r_ctx r \<and> r_u r' = r_u r \<and> r_done r' = r_done r
    \<and> r_effects r' = r_effects r \<and> r_cleanups r' = r_cleanups r \<and> r_msec r' = r_msec r
    \<and> r_main_count r' = r_main_count r"
  using assms by (auto simp: set_custom_header_def alloc_def Let_def split: prod.splits if_splits list.splits)

lemma emit_headers_frame:
  "r_pool (emit_headers P r ctx) = r_pool r \<and> r_ctx (emit_headers P r ctx) = r_ctx r
   \<and> r_u (emit_headers P r ctx) = r_u r \<and> r_done (emit_headers P r ctx) = r_done r
   \<and> r_effects (emit_headers P r ctx) = r_effects r \<and> r_cleanups (emit_headers P r ctx) = r_cleanups r
   \<and> r_msec (emit_headers P r ctx) = r_msec r \<and> r_main_count (emit_headers P r ctx) = r_main_count r"
proof -
  note f = set_custom_header_frame [of P _ _ _ "fst (set_custom_header P r k v)" "snd (set_custom_header P r k v)" for r k v]
  show ?thesis by (simp add: emit_headers_def Let_def f set_custom_header_frame [OF prod.collapse [symmetric]])
qed

text \<open>A header nginx will send (\<open>hash\<close> is not 0), ready for its lookup by lower-case name.\<close>

fun live_header :: "ngx_str \<times> ngx_str \<Rightarrow> header" where
  "live_header (k, v) = \<lparr>h_key = k, h_value = v, h_lowcase_key = map tolower k, h_hash = 1\<rparr>"

lemma set_custom_header_ok:
  assumes "decimal_sprintf P" and "False \<notin> set (r_allocs r)"
  shows "False \<notin> set (r_allocs (snd (set_custom_header P r k v)))
    \<and> r_headers_out (snd (set_custom_header P r k v)) = r_headers_out r @ [live_header (k, dec (unat v))]"
  using assms
  by (auto simp: set_custom_header_def alloc_def Let_def decimal_sprintf_def
      split: prod.splits if_splits list.splits)

definition rate_headers :: "rl_ctx \<Rightarrow> (ngx_str \<times> ngx_str) list" where
  "rate_headers ctx =
     [(x_limit_header, dec (unat (limit ctx))), (x_remaining_header, dec (unat (remaining ctx))),
      (x_reset_header, dec (unat (reset ctx)))] @
     (if sint (retry_after ctx) \<noteq> -1 then [(x_retry_after_header, dec (unat (retry_after ctx)))] else [])"

lemma emit_headers_ok:
  assumes "decimal_sprintf P" and "False \<notin> set (r_allocs r)"
  shows "r_headers_out (emit_headers P r ctx) = r_headers_out r @ map live_header (rate_headers ctx)"
  using assms by (simp add: emit_headers_def Let_def set_custom_header_ok rate_headers_def)

lemma finalize_request_fields:
  assumes "r_ctx r = Some ctx"
  shows "r_ctx (finalize_request E r) = Some (ctx\<lparr>auth_buf := None, finalized := True\<rparr>)"
    "r_u (finalize_request E r) = r_u r" "r_effects (finalize_request E r) = r_effects r"
    "r_done (finalize_request E r) = r_done r" "r_cleanups (finalize_request E r) = r_cleanups r"
    "r_msec (finalize_request E r) = r_msec r" "r_main_count (finalize_request E r) = r_main_count r"
    "r_headers_out (finalize_request E r) =
       (if headers_due (e_lc E) ctx (r_u r) then r_headers_out (emit_headers (e_p E) r ctx) else r_headers_out r)"
    "r_pool (finalize_request E r) =
       (case auth_buf ctx of None \<Rightarrow> r_pool r | Some a \<Rightarrow> (r_pool r)[a := zero_mem (r_pool r ! a)])"
  using assms emit_headers_frame [of "e_p E" r ctx]
  by (auto simp: finalize_request_def wipe_auth_def Let_def split: option.splits)

text \<open>C27: The response headers of the finalisation callback: when no allocation fails, exactly the four
  \<open>X-RateLimit-*\<close> / \<open>Retry-After\<close> fields are appended with the counters in decimal, each as a
  live header (one nginx does not take for deleted, with its lower-case name), and only if the reply
  was parsed to its end and the status is 429, or 200 with \<open>ratelimit_headers on\<close>;
  \<open>Retry-After\<close> is left out exactly when the counter is \<open>-1\<close>.\<close>

theorem finalize_headers:
  assumes "decimal_sprintf (e_p E)" and "r_ctx r = Some ctx" and "False \<notin> set (r_allocs r)"
  shows "r_headers_out (finalize_request E r) = r_headers_out r @
    (if reply_parsed ctx \<and> (u_status (r_u r) = ST_TOO_MANY_REQUESTS
          \<or> lc_enable_headers (e_lc E) \<noteq> 0 \<and> u_status (r_u r) = ST_OK)
     then map (\<lambda>(k, v). \<lparr>h_key = k, h_value = dec (unat v), h_lowcase_key = map tolower k, h_hash = 1\<rparr>)
       ([(''X-RateLimit-Limit'', limit ctx), (''X-RateLimit-Remaining'', remaining ctx),
         (''X-RateLimit-Reset'', reset ctx)]
        @ (if sint (retry_after ctx) \<noteq> -1 then [(''Retry-After'', retry_after ctx)] else []))
     else [])"
  using assms
  by (simp add: finalize_request_fields emit_headers_ok headers_due_def rate_headers_def
      x_limit_header_def x_remaining_header_def x_reset_header_def x_retry_after_header_def del: list.map) auto

theorem finalize_headers_witness:
  "r_headers_out (finalize_request sample_env
      (sample_request\<lparr>r_ctx := Some (sample_ctx\<lparr>reply_parsed := True, limit := 15, retry_after := 42\<rparr>),
                      r_u := sample_upstream\<lparr>u_status := ST_TOO_MANY_REQUESTS\<rparr>\<rparr>)) =
   map live_header [(''X-RateLimit-Limit'', ''15''), (''X-RateLimit-Remaining'', ''0''),
     (''X-RateLimit-Reset'', ''0''), (''Retry-After'', ''42'')]"
  by (subst finalize_headers [of sample_env _ "sample_ctx\<lparr>reply_parsed := True, limit := 15, retry_after := 42\<rparr>"])
    (simp_all add: dec.simps sample_defs)

lemma build_command_grows:
  "build_command P r argv = (rc, a, r') \<Longrightarrow> (\<exists>bs. r_pool r' = r_pool r @ bs) \<and> r_cleanups r' = r_cleanups r"
  by (auto simp: build_command_def pool_add_def Let_def emit_def list_update_append
      split: prod.splits if_splits dest!: alloc_pool)

lemma prelude_select_grows:
  "prelude_select E r chain count = (res, r') \<Longrightarrow> (\<exists>bs. r_pool r' = r_pool r @ bs) \<and> r_cleanups r' = r_cleanups r"
  by (fastforce simp: prelude_select_def append_command_def set_uint_arg_def Let_def
      split: prod.splits if_splits option.splits dest!: alloc_pool build_command_grows)

lemma prelude_auth_buf:
  assumes "decimal_sprintf (e_p E)" "fits (e_p E) (auth_argv (e_lc E))" "lc_password (e_lc E) \<noteq> []"
    and "build_prelude E r ctx = (NGX_OK, ctx', r')"
  shows "auth_buf ctx' = Some (length (r_pool r)) \<and> length (r_pool r) < length (r_pool r')
    \<and> r_pool r' ! length (r_pool r) = frame_buf (command_bytes (e_p E) (auth_argv (e_lc E)))
    \<and> length (r_pool r) \<in> set (r_cleanups r')"
proof -
  obtain chain count ctx1 r1 chain2 count2
    where a: "prelude_auth E r ctx = (Some (chain, count), ctx1, r1)"
      and s: "prelude_select E r1 chain count = (Some (chain2, count2), r')"
      and ctx': "ctx' = ctx1\<lparr>prelude_chain := chain2, prelude_replies := count2\<rparr>"
    using assms(4) by (auto simp: build_prelude_def split: prod.splits option.splits)
  have "auth_buf ctx1 = Some (length (r_pool r))
    \<and> r_pool r1 = r_pool r @ [frame_buf (command_bytes (e_p E) (auth_argv (e_lc E)))]
    \<and> length (r_pool r) \<in> set (r_cleanups r1)"
    using a assms(1-3)
    by (auto simp: prelude_auth_def auth_argv_def Let_def split: prod.splits option.splits if_splits
        dest!: append_command_Some alloc_pool)
  with prelude_select_grows [OF s] ctx' show ?thesis by (auto simp: nth_append)
qed

text \<open>C19: The password does not outlive the request's use of it: a prelude that was built with a password
  records the buffer holding the AUTH command and registers it for wiping when the pool is
  destroyed; the finalisation callback, in any later state that still has the buffer, overwrites
  every byte of it with zero, and so does the cleanup handler.\<close>

theorem auth_buffer_wiped:
  assumes "decimal_sprintf (e_p E)" "fits (e_p E) (auth_argv (e_lc E))" "lc_password (e_lc E) \<noteq> []"
    and "build_prelude E r ctx = (NGX_OK, ctx', r1)"
    and "r_ctx r2 = Some ctx2" "auth_buf ctx2 = auth_buf ctx'" "length (r_pool r1) \<le> length (r_pool r2)"
  shows "\<exists>a. auth_buf ctx' = Some a \<and> b_data (r_pool r1 ! a) = command_bytes (e_p E) (auth_argv (e_lc E))
    \<and> a \<in> set (r_cleanups r1)
    \<and> set (b_mem (r_pool (finalize_request E r2) ! a)) \<subseteq> {CHR 0x00}
    \<and> set (b_mem (r_pool (wipe_auth a r2) ! a)) \<subseteq> {CHR 0x00}
    \<and> map_option auth_buf (r_ctx (finalize_request E r2)) = Some None"
  using prelude_auth_buf [OF assms(1-4)] assms(5-7)
  by (auto simp: finalize_request_fields wipe_auth_def zero_mem_def)

theorem auth_buffer_wiped_witness:
  "\<exists>ctx r a. fst (build_prelude sample_env sample_request sample_ctx) = NGX_OK
     \<and> snd (build_prelude sample_env sample_request sample_ctx) = (ctx, r) \<and> auth_buf ctx = Some a
     \<and> b_data (r_pool r ! a) = command_bytes ascii_platform [''AUTH'', ''pw'']
     \<and> set (b_mem (r_pool (finalize_request sample_env (r\<lparr>r_ctx := Some ctx\<rparr>)) ! a)) \<subseteq> {CHR 0x00}"
proof -
  obtain rc ctx r where bp: "build_prelude sample_env sample_request sample_ctx = (rc, ctx, r)"
    by (cases "build_prelude sample_env sample_request sample_ctx") simp
  have "rc = NGX_OK" using build_prelude_no_failure [OF _ _ _ bp] sample_fits by simp
  moreover have "fits (e_p sample_env) (auth_argv (e_lc sample_env))" "lc_password (e_lc sample_env) \<noteq> []"
    "auth_argv (e_lc sample_env) = [''AUTH'', ''pw'']" "e_p sample_env = ascii_platform"
    using sample_fits by (simp_all add: prelude_argvs_def sample_env_def sample_lc_def auth_argv_def)
  ultimately show ?thesis
    using bp auth_buffer_wiped [of sample_env sample_request sample_ctx ctx r "r\<lparr>r_ctx := Some ctx\<rparr>" ctx] by auto
qed

text \<open>C38: The exception to the wipe: when the allocation after the AUTH command fails, \<open>build_prelude\<close> fails
  with the password in the pool, without a cleanup for it and without a reference to it in the
  context, so nothing will ever zero it.\<close>

theorem auth_unwiped_on_oom:
  assumes "decimal_sprintf (e_p E)" "fits (e_p E) (auth_argv (e_lc E))" "lc_password (e_lc E) \<noteq> []"
    and "r_allocs r = [True, False]"
  shows "\<exists>ctx' r'. build_prelude E r ctx = (NGX_ERROR, ctx', r')
    \<and> b_data (r_pool r' ! length (r_pool r)) = command_bytes (e_p E) (auth_argv (e_lc E))
    \<and> auth_buf ctx' = auth_buf ctx \<and> r_cleanups r' = r_cleanups r"
proof -
  have "alloc r = (True, r\<lparr>r_allocs := [False]\<rparr>)" using assms(4) by (simp add: alloc_def)
  with assms show ?thesis
    by (simp add: build_prelude_def prelude_auth_def append_command_def build_command_eq fits_def
        auth_argv_def alloc_def Let_def)
qed

theorem auth_unwiped_on_oom_witness:
  "\<exists>ctx r. build_prelude sample_env (sample_request\<lparr>r_allocs := [True, False]\<rparr>) sample_ctx = (NGX_ERROR, ctx, r)
     \<and> r_cleanups r = [] \<and> auth_buf ctx = None"
proof -
  have "fits (e_p sample_env) (auth_argv (e_lc sample_env))" "lc_password (e_lc sample_env) \<noteq> []"
    using sample_fits by (auto simp: prelude_argvs_def sample_env_def sample_lc_def)
  from auth_unwiped_on_oom [OF _ this, of "sample_request\<lparr>r_allocs := [True, False]\<rparr>" sample_ctx]
  show ?thesis by (auto simp: sample_request_def sample_ctx_def zero_ctx_def)
qed

text \<open>Bytes from Redis reach the error log only sanitised.\<close>

definition log_safe :: "ngx_str \<Rightarrow> bool" where
  "log_safe s \<longleftrightarrow> length s \<le> LOG_SANITIZE_MAX \<and> (\<forall>ch \<in> set s. printable ch)"

lemma printable_dot [simp]: "printable (CHR ''.'')"
  by (simp add: printable_def byte_def)

lemma sanitize_log_safe: "sanitize_log_str r src = (s, r') \<Longrightarrow> log_safe s \<and> r_effects r' = r_effects r"
  by (auto simp: sanitize_log_str_def log_safe_def alloc_def LOG_SANITIZE_MAX_def Let_def
      split: prod.splits if_splits list.splits)

lemma log_reply_effects: "\<exists>s. r_effects (log_reply r line) = r_effects r @ [Log_error s] \<and> log_safe s"
  by (auto simp: log_reply_def Let_def emit_def split: prod.splits dest: sanitize_log_safe)

end
