(* ===== verification/RL_Header.thy ===== *)
theory RL_Header
  imports RL_Request
begin

text \<open>
  Writing the EVAL fallback (\<open>src/ngx_http_ratelimit_upstream.c\<close>: \<open>send_eval\<close>,
  \<open>resend_eval\<close>) and reading the head of the reply (\<open>src/ngx_http_ratelimit_handler.c\<close>:
  \<open>consume_prelude_reply\<close>, \<open>process_header\<close>).
\<close>

section \<open>Writing EVAL\<close>

datatype send_result = All_sent | Send_blocked | Send_broken

text \<open>The write loop: each call of \<open>c->send\<close> takes the next event; a send accepts at most the
  bytes that are left.  The result carries the events left, the buffer and the bytes accepted.\<close>

fun send_loop :: "send_ev list \<Rightarrow> ngx_buf \<Rightarrow> send_result \<times> send_ev list \<times> ngx_buf \<times> ngx_str" where
  "send_loop evs b =
     (if \<not> b_pos b < b_last b then (All_sent, evs, b, [])
      else case evs of
          [] \<Rightarrow> (Send_blocked, [], b, [])
        | Send_again # evs' \<Rightarrow> (Send_blocked, evs', b, [])
        | Send_error # evs' \<Rightarrow> (Send_broken, evs', b, [])
        | Send_bytes n # evs' \<Rightarrow>
            let n = min n (b_last b - b_pos b);
                out = span_of (b_mem b) (b_pos b) (b_pos b + n);
                (res, evs'', b', rest) = send_loop evs' (b\<lparr>b_pos := b_pos b + n\<rparr>)
            in (res, evs'', b', out @ rest))"

declare send_loop.simps [simp del]

text \<open>\<open>ngx_http_ratelimit_send_eval\<close>: only the first buffer of \<open>request_bufs\<close> is written.  It
  is called with a connection and a request buffer; the branches without them (null dereferences)
  are not reached.\<close>

definition send_eval :: "request \<Rightarrow> int \<times> request" where
  "send_eval r =
     (case u_conn (r_u r) of None \<Rightarrow> (NGX_ERROR, r) | Some c \<Rightarrow>
      case u_request_bufs (r_u r) of [] \<Rightarrow> (NGX_ERROR, r) | a # _ \<Rightarrow>
      case send_loop (c_send c) (r_pool r ! a) of (res, evs, b, out) \<Rightarrow>
        let c = c\<lparr>c_send := evs, c_sent := c_sent c + length out\<rparr>;
            r = r\<lparr>r_pool := (r_pool r)[a := b]\<rparr>;
            r = (if out = [] then r else emit (Sent out) r)
        in case res of
             Send_blocked \<Rightarrow>
               let r = map_u (\<lambda>u. u\<lparr>u_write_handler := WH_send_eval\<rparr>) r in
               if \<not> c_wr_event_ok c then (NGX_ERROR, map_u (\<lambda>u. u\<lparr>u_conn := Some c\<rparr>) r)
               else (NGX_OK, map_u (\<lambda>u. u\<lparr>u_conn := Some (c\<lparr>c_wr_timer_set := True\<rparr>)\<rparr>) r)
           | Send_broken \<Rightarrow> (HTTP_BAD_GATEWAY, map_u (\<lambda>u. u\<lparr>u_conn := Some c\<rparr>) r)
           | All_sent \<Rightarrow>
               (NGX_OK, map_u (\<lambda>u. u\<lparr>u_conn := Some (c\<lparr>c_wr_timer_set := False\<rparr>),
                                    u_write_handler := WH_dummy\<rparr>) r))"

text \<open>\<open>ngx_http_ratelimit_resend_eval\<close>.\<close>

definition resend_eval :: "env \<Rightarrow> request \<Rightarrow> int \<times> request" where
  "resend_eval E r =
     (case r_ctx r of None \<Rightarrow> (NGX_ERROR, r) | Some ctx \<Rightarrow>
      case create_request E (r\<lparr>r_ctx := Some (ctx\<lparr>eval_fallback := True\<rparr>)\<rparr>) of (rc, r) \<Rightarrow>
        if rc \<noteq> NGX_OK then (NGX_ERROR, r)
        else
          let r = map_u (\<lambda>u. u\<lparr>u_buffer := buf_rewind (u_buffer u)\<rparr>) r;
              r = r\<lparr>r_ctx := map_option (\<lambda>ctx. ctx\<lparr>state := sw_start, limit := 0, remaining := 0,
                      reset := 0, retry_after := -1, prelude_replies := 0\<rparr>) (r_ctx r)\<rparr>
          in send_eval r)"

section \<open>The head of the reply\<close>

text \<open>The scan for a line feed from offset \<open>i\<close>: the offset where it stops.\<close>

definition scan_lf :: "ngx_buf \<Rightarrow> nat \<Rightarrow> nat" where
  "scan_lf b i = i + length (takeWhile (\<lambda>ch. ch \<noteq> LF) (span_of (b_mem b) i (b_last b)))"

text \<open>\<open>ngx_http_ratelimit_consume_prelude_reply\<close> on the upstream buffer.\<close>

definition consume_prelude_reply :: "request \<Rightarrow> int \<times> request" where
  "consume_prelude_reply r =
     (let b = u_buffer (r_u r);
          p = scan_lf b (b_pos b)
      in if p = b_last b then (NGX_AGAIN, r)
         else if b_mem b ! b_pos b = CHR ''+''
         then (NGX_OK, map_u (\<lambda>u. u\<lparr>u_buffer := b\<lparr>b_pos := p + 1\<rparr>\<rparr>) r)
         else (NGX_ERROR, log_reply r (span_of (b_mem b) (b_pos b) p)))"

text \<open>The loop over the outstanding AUTH/SELECT replies; its argument is
  \<open>ctx->prelude_replies\<close>.\<close>

fun consume_preludes :: "nat \<Rightarrow> request \<Rightarrow> int \<times> request" where
  "consume_preludes 0 r = (NGX_OK, r)"
| "consume_preludes (Suc k) r =
     (case consume_prelude_reply r of (prc, r) \<Rightarrow>
        if prc \<noteq> NGX_OK then (prc, r)
        else consume_preludes k
               (r\<lparr>r_ctx := map_option (\<lambda>ctx. ctx\<lparr>prelude_replies := k\<rparr>) (r_ctx r)\<rparr>))"

text \<open>The part of \<open>ngx_http_ratelimit_process_header\<close> after the prelude replies.\<close>

definition process_reply_head :: "env \<Rightarrow> request \<Rightarrow> int \<times> request" where
  "process_reply_head E r =
     (let b = u_buffer (r_u r) in
      if b_last b - b_pos b < 1 then (NGX_AGAIN, r)
      else
        let chr = b_mem b ! b_pos b in
        if chr = CHR ''*''
        then (NGX_OK, map_u (\<lambda>u. u\<lparr>u_buffer := b\<lparr>b_pos := b_pos b + 1\<rparr>, u_status := ST_OK\<rparr>) r)
        else if chr = CHR ''-'' then
          let p = scan_lf b (b_pos b + 1) in
          if p = b_last b then (NGX_AGAIN, r)
          else if \<not> (case r_ctx r of None \<Rightarrow> True | Some ctx \<Rightarrow> eval_fallback ctx)
               \<and> 9 \<le> b_last b - b_pos b
               \<and> span_of (b_mem b) (b_pos b + 1) (b_pos b + 9) = ''NOSCRIPT''
          then (case resend_eval E r of (rc, r) \<Rightarrow> if rc \<noteq> NGX_OK then (rc, r) else (NGX_AGAIN, r))
          else (NGX_ERROR, log_reply r (span_of (b_mem b) (b_pos b) p))
        else case sanitize_log_str r (b_data b) of
               (s, r) \<Rightarrow> (UPSTREAM_INVALID_HEADER, emit (Log_error s) r))"

definition process_header :: "env \<Rightarrow> request \<Rightarrow> int \<times> request" where
  "process_header E r =
     (case r_ctx r of None \<Rightarrow> (NGX_ERROR, r) | Some ctx \<Rightarrow>
      case consume_preludes (prelude_replies ctx) r of (rc, r) \<Rightarrow>
        if rc \<noteq> NGX_OK then (rc, r) else process_reply_head E r)"

text \<open>\<open>ngx_http_ratelimit_reinit_request\<close> and \<open>ngx_http_ratelimit_abort_request\<close>.\<close>

definition reinit_request :: "request \<Rightarrow> int \<times> request" where
  "reinit_request r = (NGX_OK, map_u (\<lambda>u. u\<lparr>u_read_handler := RH_header\<rparr>) r)"

definition abort_request :: "request \<Rightarrow> request" where
  "abort_request r = r"

section \<open>What reading the head leaves alone\<close>

text \<open>The receive side of the connection, which the head of the reply is read from.\<close>

definition recv_events :: "request \<Rightarrow> recv_ev list" where
  "recv_events r = (case u_conn (r_u r) of None \<Rightarrow> [] | Some c \<Rightarrow> c_recv c)"

lemma u_sans_bufsD:
  assumes "u_sans_bufs r' = u_sans_bufs r"
  shows "u_conn (r_u r') = u_conn (r_u r)" "u_cleanup (r_u r') = u_cleanup (r_u r)"
    "u_status (r_u r') = u_status (r_u r)" "u_length (r_u r') = u_length (r_u r)"
    "u_buffer (r_u r') = u_buffer (r_u r)"
  using arg_cong [OF assms, of u_conn] arg_cong [OF assms, of u_cleanup]
    arg_cong [OF assms, of u_status] arg_cong [OF assms, of u_length] arg_cong [OF assms, of u_buffer]
  by (simp_all add: u_sans_bufs_def)

text \<open>\<open>send_eval\<close> changes the connection on its send side only, and the write handler.\<close>

definition send_side :: "upstream \<Rightarrow> upstream" where
  "send_side u = u\<lparr>u_conn := map_option (\<lambda>c. c\<lparr>c_send := [], c_sent := 0, c_wr_timer_set := False\<rparr>) (u_conn u),
     u_write_handler := WH_dummy\<rparr>"

lemma send_eval_frame:
  assumes "send_eval r = (rc, r')"
  shows "r_ctx r' = r_ctx r \<and> send_side (r_u r') = send_side (r_u r)
    \<and> r_headers_out r' = r_headers_out r \<and> r_done r' = r_done r
    \<and> rc \<in> {NGX_OK, NGX_ERROR, HTTP_BAD_GATEWAY}"
  using assms
  by (auto simp: send_eval_def send_side_def Let_def emit_def
      split: option.splits list.splits prod.splits send_result.splits if_splits)

text \<open>What reading the head may change of the upstream (the send side, the request buffers, the
  read buffer and the status) and what it keeps of the context.\<close>

definition head_side :: "upstream \<Rightarrow> upstream" where
  "head_side u = (send_side u)\<lparr>u_request_bufs := [], u_buffer := empty_buf, u_status := 0\<rparr>"

definition ctx_ident :: "request \<Rightarrow> (ngx_str \<times> bool \<times> bool \<times> nat option) option" where
  "ctx_ident r = map_option (\<lambda>c. (key c, finalized c, reply_parsed c, auth_buf c)) (r_ctx r)"

definition head_frame :: "request \<Rightarrow> request \<Rightarrow> bool" where
  "head_frame r r' \<longleftrightarrow> head_side (r_u r') = head_side (r_u r) \<and> ctx_ident r' = ctx_ident r
     \<and> r_headers_out r' = r_headers_out r \<and> r_done r' = r_done r"

lemma head_frame_refl [simp, intro]: "head_frame r r"
  by (simp add: head_frame_def)

lemma head_frame_trans: "head_frame r r' \<Longrightarrow> head_frame r' r'' \<Longrightarrow> head_frame r r''"
  by (simp add: head_frame_def)

lemma head_frame_same_core: "same_core r r' \<Longrightarrow> head_frame r r'"
  by (simp add: head_frame_def same_core_def ctx_ident_def)

lemma head_frame_buffer: "head_frame r (map_u (\<lambda>u. u\<lparr>u_buffer := b\<rparr>) r)"
  by (simp add: head_frame_def head_side_def send_side_def ctx_ident_def)

lemma head_frame_emit [simp]: "head_frame r (emit e r') = head_frame r r'"
  by (simp add: head_frame_def emit_def ctx_ident_def)

lemma head_sideD:
  assumes "head_side u = head_side v"
  shows "u_cleanup u = u_cleanup v" "u_length u = u_length v" "u_start_null u = u_start_null v"
    "u_request_sent u = u_request_sent v" "u_out_bufs u = u_out_bufs v" "u_busy_bufs u = u_busy_bufs v"
    "u_keepalive u = u_keepalive v" "u_read_handler u = u_read_handler v"
    "map_option c_recv (u_conn u) = map_option c_recv (u_conn v)"
    "(u_conn u = None) = (u_conn v = None)"
proof -
  note a = arg_cong [OF assms]
  show "u_cleanup u = u_cleanup v" "u_length u = u_length v" "u_start_null u = u_start_null v"
    "u_request_sent u = u_request_sent v" "u_out_bufs u = u_out_bufs v" "u_busy_bufs u = u_busy_bufs v"
    "u_keepalive u = u_keepalive v" "u_read_handler u = u_read_handler v"
    using a [of u_cleanup] a [of u_length] a [of u_start_null] a [of u_request_sent]
      a [of u_out_bufs] a [of u_busy_bufs] a [of u_keepalive] a [of u_read_handler]
    by (simp_all add: head_side_def send_side_def)
  show "map_option c_recv (u_conn u) = map_option c_recv (u_conn v)"
    "(u_conn u = None) = (u_conn v = None)"
    using a [of "\<lambda>u. map_option c_recv (u_conn u)"] a [of "\<lambda>u. u_conn u = None"]
    by (simp_all add: head_side_def send_side_def option.map_comp o_def)
qed

lemma recv_events_head_frame: "head_frame r r' \<Longrightarrow> recv_events r' = recv_events r"
  using head_sideD(9) [of "r_u r'" "r_u r"]
  by (auto simp: head_frame_def recv_events_def split: option.splits)

lemma head_frame_send_eval:
  assumes "send_eval r = (rc, r')"
  shows "head_frame r r' \<and> u_status (r_u r') = u_status (r_u r) \<and> rc \<in> {NGX_OK, NGX_ERROR, HTTP_BAD_GATEWAY}"
proof -
  note f = send_eval_frame [OF assms]
  then have side: "send_side (r_u r') = send_side (r_u r)" by blast
  have "u_status (r_u r') = u_status (r_u r)"
    using arg_cong [OF side, of u_status] by (simp add: send_side_def)
  with f show ?thesis
    by (simp add: head_frame_def head_side_def ctx_ident_def)
qed

lemma head_frame_create_request:
  assumes "create_request E r = (rc, r')"
  shows "head_frame r r' \<and> u_status (r_u r') = u_status (r_u r) \<and> rc \<in> {NGX_OK, NGX_ERROR}"
proof -
  note f = create_request_frame [OF assms]
  then have u: "u_sans_bufs r' = u_sans_bufs r" and c: "ctx_sans_chain r' = ctx_sans_chain r" by blast+
  have "ctx_ident r' = ctx_ident r"
    using arg_cong [OF c, of "map_option (\<lambda>c. (key c, finalized c, reply_parsed c, auth_buf c))"]
    by (simp add: ctx_sans_chain_def ctx_ident_def option.map_comp o_def)
  moreover have "head_side (r_u r') = head_side (r_u r)"
    using arg_cong [OF u, of head_side] by (simp add: u_sans_bufs_def head_side_def send_side_def)
  ultimately show ?thesis
    using f u_sans_bufsD(3) [OF u] by (simp add: head_frame_def)
qed

lemma head_frame_ctx:
  assumes "\<And>c. (key (f c), finalized (f c), reply_parsed (f c), auth_buf (f c)) =
    (key c, finalized c, reply_parsed c, auth_buf c)"
  shows "head_frame r (r\<lparr>r_ctx := map_option f (r_ctx r)\<rparr>)"
  using assms by (simp add: head_frame_def ctx_ident_def option.map_comp o_def)

lemma head_frame_resend_eval:
  assumes "resend_eval E r = (rc, r')"
  shows "head_frame r r' \<and> u_status (r_u r') = u_status (r_u r) \<and> rc \<in> {NGX_OK, NGX_ERROR, HTTP_BAD_GATEWAY}"
proof (cases "r_ctx r")
  case None
  with assms show ?thesis by (auto simp: resend_eval_def)
next
  case (Some ctx)
  let ?r1 = "r\<lparr>r_ctx := Some (ctx\<lparr>eval_fallback := True\<rparr>)\<rparr>"
  let ?reset = "\<lambda>ctx. ctx\<lparr>state := sw_start, limit := 0, remaining := 0,
                      reset := 0, retry_after := -1, prelude_replies := 0\<rparr>"
  have h1: "head_frame r ?r1" using Some head_frame_ctx [of "\<lambda>c. c\<lparr>eval_fallback := True\<rparr>" r] by simp
  obtain rc2 r2 where cr: "create_request E ?r1 = (rc2, r2)" by fastforce
  note h2 = head_frame_create_request [OF cr]
  show ?thesis
  proof (cases "rc2 = NGX_OK")
    case False
    with assms Some cr have "rc = NGX_ERROR" "r' = r2" by (auto simp: resend_eval_def)
    with h1 h2 show ?thesis by (auto intro: head_frame_trans)
  next
    case True
    let ?r3 = "map_u (\<lambda>u. u\<lparr>u_buffer := buf_rewind (u_buffer u)\<rparr>) r2"
    let ?r4 = "?r3\<lparr>r_ctx := map_option ?reset (r_ctx ?r3)\<rparr>"
    have "send_eval ?r4 = (rc, r')"
      using assms Some cr True by (simp add: resend_eval_def Let_def)
    note h5 = head_frame_send_eval [OF this]
    have h3: "head_frame r2 ?r3" by (rule head_frame_buffer)
    have h4: "head_frame ?r3 ?r4" by (rule head_frame_ctx) simp
    have "head_frame r r'"
      using h1 h2 h3 h4 h5 by (blast intro: head_frame_trans)
    moreover have "u_status (r_u r') = u_status (r_u r)"
      using h5 h2 by simp
    ultimately show ?thesis using h5 by blast
  qed
qed

lemma head_frame_consume_prelude:
  assumes "consume_prelude_reply r = (rc, r')"
  shows "head_frame r r' \<and> u_status (r_u r') = u_status (r_u r) \<and> rc \<in> {NGX_OK, NGX_AGAIN, NGX_ERROR}"
  using assms same_core_log_reply [of r]
  by (auto simp: consume_prelude_reply_def Let_def head_frame_buffer same_core_fields
      split: if_splits intro: head_frame_same_core)

lemma head_frame_consume_preludes:
  "consume_preludes k r = (rc, r') \<Longrightarrow>
   head_frame r r' \<and> u_status (r_u r') = u_status (r_u r) \<and> rc \<in> {NGX_OK, NGX_AGAIN, NGX_ERROR}"
proof (induction k arbitrary: r)
  case (Suc k)
  obtain prc r1 where c: "consume_prelude_reply r = (prc, r1)" by fastforce
  note h1 = head_frame_consume_prelude [OF c]
  show ?case
  proof (cases "prc = NGX_OK")
    case False
    with Suc.prems c h1 show ?thesis by auto
  next
    case True
    let ?r2 = "r1\<lparr>r_ctx := map_option (\<lambda>ctx. ctx\<lparr>prelude_replies := k\<rparr>) (r_ctx r1)\<rparr>"
    have "consume_preludes k ?r2 = (rc, r')" using Suc.prems c True by simp
    from Suc.IH [OF this] have h3: "head_frame ?r2 r'" "u_status (r_u r') = u_status (r_u r1)"
      "rc \<in> {NGX_OK, NGX_AGAIN, NGX_ERROR}" by auto
    have "head_frame r1 ?r2" by (rule head_frame_ctx) simp
    with h1 h3 show ?thesis by (auto intro: head_frame_trans)
  qed
qed auto

lemma head_frame_process_reply_head:
  assumes "process_reply_head E r = (rc, r')"
  shows "head_frame r r' \<and> u_status (r_u r') = (if rc = NGX_OK then ST_OK else u_status (r_u r))
    \<and> rc \<in> {NGX_OK, NGX_AGAIN, NGX_ERROR, HTTP_BAD_GATEWAY, UPSTREAM_INVALID_HEADER}"
proof -
  have star: "head_frame r (map_u (\<lambda>u. u\<lparr>u_buffer := b, u_status := x\<rparr>) r)" for b x
    by (simp add: head_frame_def head_side_def send_side_def ctx_ident_def)
  show ?thesis
    using assms same_core_log_reply [of r]
    by (auto simp: process_reply_head_def Let_def star same_core_fields emit_def
        split: if_splits prod.splits option.splits intro: head_frame_same_core
        dest!: head_frame_resend_eval same_core_sanitize)
      (simp_all add: head_frame_def same_core_def ctx_ident_def)
qed

lemma process_header_frame:
  assumes "process_header E r = (rc, r')"
  shows "head_frame r r' \<and> u_status (r_u r') = (if rc = NGX_OK then ST_OK else u_status (r_u r))
    \<and> rc \<in> {NGX_OK, NGX_AGAIN, NGX_ERROR, HTTP_BAD_GATEWAY, UPSTREAM_INVALID_HEADER}"
proof (cases "r_ctx r")
  case None
  with assms show ?thesis by (auto simp: process_header_def)
next
  case (Some ctx)
  obtain rc1 r1 where c: "consume_preludes (prelude_replies ctx) r = (rc1, r1)" by fastforce
  note h1 = head_frame_consume_preludes [OF c]
  show ?thesis
  proof (cases "rc1 = NGX_OK")
    case False
    with assms Some c h1 show ?thesis by (auto simp: process_header_def)
  next
    case True
    with assms Some c have "process_reply_head E r1 = (rc, r')" by (simp add: process_header_def)
    from head_frame_process_reply_head [OF this] h1 show ?thesis by (auto intro: head_frame_trans)
  qed
qed

section \<open>The effects of reading the head\<close>

definition safe_log :: "effect \<Rightarrow> bool" where
  "safe_log e \<longleftrightarrow> (case e of Log_error s \<Rightarrow> log_safe s | _ \<Rightarrow> False)"

definition is_sent :: "effect \<Rightarrow> bool" where
  "is_sent e \<longleftrightarrow> (case e of Sent s \<Rightarrow> True | _ \<Rightarrow> False)"

definition fallback_on :: "request \<Rightarrow> bool" where
  "fallback_on r \<longleftrightarrow> (case r_ctx r of None \<Rightarrow> False | Some ctx \<Rightarrow> eval_fallback ctx)"

lemma fallback_on_map: "fallback_on r \<longleftrightarrow> map_option eval_fallback (r_ctx r) = Some True"
  by (auto simp: fallback_on_def split: option.split)

definition adds :: "(effect \<Rightarrow> bool) \<Rightarrow> request \<Rightarrow> request \<Rightarrow> bool" where
  "adds Q r r' \<longleftrightarrow> (\<exists>es. r_effects r' = r_effects r @ es \<and> (\<forall>e \<in> set es. Q e))"

lemma adds_refl: "r_effects r' = r_effects r \<Longrightarrow> adds Q r r'"
  by (simp add: adds_def)

lemma adds_trans: "adds Q r r' \<Longrightarrow> adds Q r' r'' \<Longrightarrow> adds Q r r''"
  unfolding adds_def by (metis append.assoc Un_iff set_append)

lemma adds_mono: "adds Q r r' \<Longrightarrow> (\<And>e. Q e \<Longrightarrow> Q' e) \<Longrightarrow> adds Q' r r'"
  unfolding adds_def by blast

lemma adds_emit: "adds Q r r' \<Longrightarrow> Q e \<Longrightarrow> adds Q r (emit e r')"
  by (force simp: adds_def emit_def)

lemma alloc_effects: "alloc r = (ok, r') \<Longrightarrow> r_effects r' = r_effects r \<and> r_ctx r' = r_ctx r"
  by (auto simp: alloc_def split: list.splits)

lemma set_uint_args_effects: "set_uint_args P r vs = (ss, r') \<Longrightarrow> r_effects r' = r_effects r"
  by (induction vs arbitrary: r ss r')
    (auto simp: set_uint_arg_def split: prod.splits option.splits if_splits dest!: alloc_effects)

lemma log_safe_buffer_error: "log_safe ''buffer error''"
  by (simp add: log_safe_def LOG_SANITIZE_MAX_def printable_def byte_def)

lemma build_command_adds: "build_command P r argv = (rc, a, r') \<Longrightarrow> adds safe_log r r'"
  by (auto simp: build_command_def pool_add_def Let_def adds_def emit_def safe_log_def log_safe_buffer_error
      split: prod.splits if_splits dest!: alloc_effects)

lemma create_request_adds:
  assumes "create_request E r = (rc, r')"
  shows "adds safe_log r r' \<and> fallback_on r' = fallback_on r"
proof -
  have "map_option eval_fallback (ctx_sans_chain r') = map_option eval_fallback (ctx_sans_chain r)"
    using create_request_frame [OF assms] by simp
  then have "map_option eval_fallback (r_ctx r') = map_option eval_fallback (r_ctx r)"
    unfolding ctx_sans_chain_def option.map_comp o_def by simp
  then have "fallback_on r' = fallback_on r"
    by (simp add: fallback_on_map)
  moreover have "adds safe_log r r'"
    using assms
    by (auto simp: create_request_def Let_def adds_def
        split: option.splits prod.splits if_splits
        dest!: set_uint_args_effects build_command_adds alloc_effects)
  ultimately show ?thesis by blast
qed

lemma send_eval_adds: "send_eval r = (rc, r') \<Longrightarrow> adds is_sent r r' \<and> fallback_on r' = fallback_on r"
  using send_eval_frame [of r rc r']
  by (auto simp: send_eval_def Let_def fallback_on_def adds_def emit_def is_sent_def
      split: option.splits list.splits prod.splits send_result.splits if_splits)

lemma resend_eval_adds:
  assumes "resend_eval E r = (rc, r')"
  shows "adds (\<lambda>e. safe_log e \<or> is_sent e) r r' \<and> (r_ctx r \<noteq> None \<longrightarrow> fallback_on r')"
proof (cases "r_ctx r")
  case None
  with assms show ?thesis by (auto simp: resend_eval_def intro: adds_refl)
next
  case (Some ctx)
  obtain rc1 r1 where cr: "create_request E (r\<lparr>r_ctx := Some (ctx\<lparr>eval_fallback := True\<rparr>)\<rparr>) = (rc1, r1)"
    by fastforce
  have 1: "adds (\<lambda>e. safe_log e \<or> is_sent e) r r1" and f1: "fallback_on r1"
    using create_request_adds [OF cr] by (auto simp: adds_def fallback_on_def)
  show ?thesis
  proof (cases "rc1 = NGX_OK")
    case False
    with assms Some cr 1 f1 show ?thesis by (auto simp: resend_eval_def)
  next
    case True
    let ?r2 = "map_u (\<lambda>u. u\<lparr>u_buffer := buf_rewind (u_buffer u)\<rparr>) r1"
    let ?r3 = "?r2\<lparr>r_ctx := map_option (\<lambda>ctx. ctx\<lparr>state := sw_start, limit := 0, remaining := 0,
                      reset := 0, retry_after := -1, prelude_replies := 0\<rparr>) (r_ctx ?r2)\<rparr>"
    have se: "send_eval ?r3 = (rc, r')"
      using assms Some cr True by (simp add: resend_eval_def Let_def)
    have "fallback_on ?r3" using f1 by (auto simp: fallback_on_def split: option.splits)
    moreover have "adds (\<lambda>e. safe_log e \<or> is_sent e) r1 ?r3" by (rule adds_refl) simp
    ultimately show ?thesis
      using send_eval_adds [OF se] 1 by (blast intro: adds_trans adds_mono)
  qed
qed

lemma log_reply_adds: "adds safe_log r (log_reply r line)"
  using log_reply_effects [of r line] by (auto simp: adds_def safe_log_def)

lemma consume_prelude_adds:
  "consume_prelude_reply r = (rc, r') \<Longrightarrow> adds safe_log r r' \<and> fallback_on r' = fallback_on r"
  using log_reply_adds [of r]
  by (auto simp: consume_prelude_reply_def Let_def fallback_on_def adds_refl split: if_splits)

lemma consume_preludes_adds:
  "consume_preludes k r = (rc, r') \<Longrightarrow> adds safe_log r r' \<and> fallback_on r' = fallback_on r"
proof (induction k arbitrary: r)
  case (Suc k)
  obtain prc r1 where c: "consume_prelude_reply r = (prc, r1)" by fastforce
  let ?r2 = "r1\<lparr>r_ctx := map_option (\<lambda>ctx. ctx\<lparr>prelude_replies := k\<rparr>) (r_ctx r1)\<rparr>"
  have 2: "adds safe_log r ?r2" "fallback_on ?r2 = fallback_on r"
    using consume_prelude_adds [OF c] by (auto simp: adds_def fallback_on_def split: option.splits)
  show ?case
  proof (cases "prc = NGX_OK")
    case False
    with Suc.prems c consume_prelude_adds [OF c] show ?thesis by auto
  next
    case True
    then have "consume_preludes k ?r2 = (rc, r')" using Suc.prems c by simp
    from Suc.IH [OF this] 2 show ?thesis by (auto intro: adds_trans)
  qed
qed (auto intro: adds_refl)

lemma process_reply_head_adds:
  assumes "process_reply_head E r = (rc, r')" and "r_ctx r \<noteq> None"
  shows "adds safe_log r r' \<and> fallback_on r' = fallback_on r
    \<or> adds (\<lambda>e. safe_log e \<or> is_sent e) r r' \<and> \<not> fallback_on r \<and> fallback_on r'"
proof -
  have log: "adds safe_log r (log_reply r line) \<and> fallback_on (log_reply r line) = fallback_on r" for line
    using log_reply_adds by (simp add: fallback_on_def)
  have san: "adds safe_log r (emit (Log_error s) r1) \<and> fallback_on (emit (Log_error s) r1) = fallback_on r"
    if "sanitize_log_str r src = (s, r1)" for src s r1
    using sanitize_log_safe [OF that] same_core_sanitize [OF that]
    by (auto simp: adds_def safe_log_def fallback_on_def emit_def same_core_def)
  have upd: "adds safe_log r (r\<lparr>r_u := u\<rparr>)" "fallback_on (r\<lparr>r_u := u\<rparr>) = fallback_on r" for u
    by (auto simp: adds_def fallback_on_def)
  have fb: "(case r_ctx r of None \<Rightarrow> True | Some ctx \<Rightarrow> eval_fallback ctx) = fallback_on r"
    using assms(2) by (auto simp: fallback_on_def)
  show ?thesis
    using assms(1) log san upd assms(2) adds_refl [of r r safe_log]
    unfolding process_reply_head_def Let_def fb
    by (auto split: if_splits prod.splits dest!: resend_eval_adds)
qed

text \<open>What \<open>process_header\<close> adds to the effects: sanitised log lines, and bytes on the connection only
  together with the latch.\<close>

lemma process_header_adds:
  assumes "process_header E r = (rc, r')"
  shows "adds safe_log r r' \<and> fallback_on r' = fallback_on r
    \<or> adds (\<lambda>e. safe_log e \<or> is_sent e) r r' \<and> \<not> fallback_on r \<and> fallback_on r'"
proof (cases "r_ctx r")
  case None
  with assms show ?thesis by (auto simp: process_header_def intro: adds_refl)
next
  case (Some ctx)
  obtain rc1 r1 where c: "consume_preludes (prelude_replies ctx) r = (rc1, r1)" by fastforce
  note 1 = consume_preludes_adds [OF c]
  show ?thesis
  proof (cases "rc1 = NGX_OK")
    case False
    with assms Some c 1 show ?thesis by (auto simp: process_header_def)
  next
    case True
    with assms Some c have h: "process_reply_head E r1 = (rc, r')" by (simp add: process_header_def)
    have "ctx_ident r1 = ctx_ident r"
      using head_frame_consume_preludes [OF c] by (simp add: head_frame_def)
    then have "r_ctx r1 \<noteq> None" using Some by (auto simp: ctx_ident_def)
    from process_reply_head_adds [OF h this] 1 show ?thesis by (blast intro: adds_trans adds_mono)
  qed
qed

text \<open>C28: A hostile Redis cannot forge log lines: everything \<open>process_header\<close> writes to the error log is
  at most 128 printable ASCII characters; besides that it only sends bytes to Redis.\<close>

theorem header_log_sanitized:
  assumes "process_header E r = (rc, r')"
  shows "\<exists>es. r_effects r' = r_effects r @ es \<and>
    (\<forall>e \<in> set es. case e of
        Log_error s \<Rightarrow> length s \<le> 128 \<and> (\<forall>ch \<in> set s. 0x20 \<le> byte ch \<and> byte ch < 0x7f)
      | Sent s \<Rightarrow> True
      | _ \<Rightarrow> False)"
proof -
  have "adds (\<lambda>e. safe_log e \<or> is_sent e) r r'"
    using process_header_adds [OF assms] adds_mono [of safe_log r r' "\<lambda>e. safe_log e \<or> is_sent e"] by blast
  moreover have "safe_log e \<or> is_sent e \<Longrightarrow> case e of
        Log_error s \<Rightarrow> length s \<le> 128 \<and> (\<forall>ch \<in> set s. 0x20 \<le> byte ch \<and> byte ch < 0x7f)
      | Sent s \<Rightarrow> True | _ \<Rightarrow> False" for e
    by (auto simp: safe_log_def is_sent_def log_safe_def LOG_SANITIZE_MAX_def printable_def split: effect.splits)
  ultimately show ?thesis unfolding adds_def by blast
qed

text \<open>A request whose reply buffer holds a given text, with the AUTH and SELECT replies still due or
  none.\<close>

definition head_request :: "nat \<Rightarrow> ngx_str \<Rightarrow> request" where
  "head_request k s = sample_request\<lparr>r_ctx := Some (sample_ctx\<lparr>prelude_replies := k\<rparr>),
     r_u := sample_upstream\<lparr>u_buffer := \<lparr>b_mem = s, b_pos = 0, b_last = length s, b_last_buf = False\<rparr>\<rparr>\<rparr>"

lemma head_request_simps [simp]:
  "r_ctx (head_request k s) = Some (sample_ctx\<lparr>prelude_replies := k\<rparr>)"
  "b_data (u_buffer (r_u (head_request k s))) = s" "buf_ok (u_buffer (r_u (head_request k s)))"
  "r_effects (head_request k s) = []" "r_allocs (head_request k s) = []" "u_conn (r_u (head_request k s)) = Some sample_conn"
  by (simp_all add: head_request_def sample_request_def b_data_def span_of_def buf_ok_def sample_upstream_def)

theorem header_log_sanitized_witness:
  "\<exists>es. r_effects (snd (process_header sample_env (head_request 0 [CHR 0x1B, LF]))) = es \<and>
    (\<forall>s. Log_error s \<in> set es \<longrightarrow> LF \<notin> set s)"
proof -
  let ?r = "head_request 0 [CHR 0x1B, LF]"
  from header_log_sanitized [of sample_env ?r "fst (process_header sample_env ?r)" "snd (process_header sample_env ?r)"]
  have safe: "\<forall>e \<in> set (r_effects (snd (process_header sample_env ?r))). case e of
        Log_error s \<Rightarrow> length s \<le> 128 \<and> (\<forall>ch \<in> set s. 0x20 \<le> byte ch \<and> byte ch < 0x7f)
      | Sent s \<Rightarrow> True | _ \<Rightarrow> False"
    by auto
  have "\<not> 0x20 \<le> byte LF" by (simp add: byte_def)
  with safe show ?thesis by fastforce
qed

section \<open>The prelude replies and the type byte\<close>

text \<open>What the head of the reply means, over the unread bytes alone: \<open>k\<close> status lines, each opened
  by \<open>+\<close> and closed by a line feed.  The result carries the replies still due and what is left.\<close>

fun prelude_spec :: "nat \<Rightarrow> ngx_str \<Rightarrow> int \<times> nat \<times> ngx_str" where
  "prelude_spec 0 s = (NGX_OK, 0, s)"
| "prelude_spec (Suc k) s =
     (if LF \<notin> set s then (NGX_AGAIN, Suc k, s)
      else if hd s = CHR ''+'' then prelude_spec k (tl (dropWhile (\<lambda>ch. ch \<noteq> LF) s))
      else (NGX_ERROR, Suc k, s))"

lemma b_data_nth:
  assumes "buf_ok b" and "b_data b \<noteq> []"
  shows "b_mem b ! b_pos b = hd (b_data b)" "b_pos b < b_last b"
  using assms by (auto simp: b_data_def span_of_def buf_ok_def hd_drop_conv_nth hd_take)

lemma b_data_length: "buf_ok b \<Longrightarrow> length (b_data b) = b_last b - b_pos b"
  by (auto simp: b_data_def buf_ok_def)

lemma b_data_advance: "b_data (b\<lparr>b_pos := b_pos b + n\<rparr>) = drop n (b_data b)"
  by (simp add: b_data_def span_of_def drop_take add.commute)

lemma dropWhile_line: "LF \<notin> set xs \<Longrightarrow> dropWhile (\<lambda>ch. ch \<noteq> LF) (xs @ LF # ys) = LF # ys"
  by (induction xs) auto

lemma line_split:
  assumes "LF \<in> set s"
  obtains xs ys where "s = xs @ LF # ys" "LF \<notin> set xs" "takeWhile (\<lambda>ch. ch \<noteq> LF) s = xs"
    "dropWhile (\<lambda>ch. ch \<noteq> LF) s = LF # ys"
proof -
  from assms obtain xs ys where s: "s = xs @ LF # ys" "LF \<notin> set xs" by (meson split_list_first)
  have "\<forall>x \<in> set xs. x \<noteq> LF" using s(2) by auto
  then have "takeWhile (\<lambda>ch. ch \<noteq> LF) s = xs" "dropWhile (\<lambda>ch. ch \<noteq> LF) s = LF # ys"
    unfolding s(1) by (subst takeWhile_append2, simp, simp, subst dropWhile_append2, simp, simp)
  with s that show thesis by blast
qed

lemma takeWhile_no_LF: "LF \<notin> set s \<Longrightarrow> takeWhile (\<lambda>ch. ch \<noteq> LF) s = s"
  by (induction s) auto

lemma scan_lf_data:
  assumes "buf_ok b"
  shows "scan_lf b (b_pos b) = b_pos b + length (takeWhile (\<lambda>ch. ch \<noteq> LF) (b_data b))"
    "scan_lf b (b_pos b) = b_last b \<longleftrightarrow> LF \<notin> set (b_data b)"
proof -
  show eq: "scan_lf b (b_pos b) = b_pos b + length (takeWhile (\<lambda>ch. ch \<noteq> LF) (b_data b))"
    by (simp add: scan_lf_def b_data_def)
  have "length (takeWhile (\<lambda>ch. ch \<noteq> LF) (b_data b)) = length (b_data b) \<longleftrightarrow> LF \<notin> set (b_data b)"
  proof (cases "LF \<in> set (b_data b)")
    case True
    then show ?thesis
      by (rule line_split) (use True in \<open>metis length_append less_add_same_cancel1 length_greater_0_conv list.distinct(1) nat_less_le\<close>)
  qed (simp add: takeWhile_no_LF)
  then show "scan_lf b (b_pos b) = b_last b \<longleftrightarrow> LF \<notin> set (b_data b)"
    using assms by (auto simp: eq b_data_length buf_ok_def)
qed

lemma drop_after_LF:
  "LF \<in> set s \<Longrightarrow> drop (Suc (length (takeWhile (\<lambda>ch. ch \<noteq> LF) s))) s = tl (dropWhile (\<lambda>ch. ch \<noteq> LF) s)"
  by (erule line_split) simp

lemma consume_prelude_spec:
  assumes "buf_ok (u_buffer (r_u r))" and "consume_prelude_reply r = (rc, r')"
  shows "buf_ok (u_buffer (r_u r')) \<and> r_ctx r' = r_ctx r \<and>
    (rc, b_data (u_buffer (r_u r'))) =
      (let s = b_data (u_buffer (r_u r)) in
       if LF \<notin> set s then (NGX_AGAIN, s)
       else if hd s = CHR ''+'' then (NGX_OK, tl (dropWhile (\<lambda>ch. ch \<noteq> LF) s))
       else (NGX_ERROR, s))"
proof (cases "LF \<in> set (b_data (u_buffer (r_u r)))")
  case False
  with assms scan_lf_data [OF assms(1)] show ?thesis by (auto simp: consume_prelude_reply_def)
next
  case True
  let ?b = "u_buffer (r_u r)" let ?s = "b_data ?b"
  let ?n = "length (takeWhile (\<lambda>ch. ch \<noteq> LF) ?s)"
  have ne: "?s \<noteq> []" using True by auto
  have "?n < length ?s"
    using True by (rule line_split) simp
  then have ok: "buf_ok (?b\<lparr>b_pos := Suc (b_pos ?b + ?n)\<rparr>)"
    using assms(1) by (auto simp: buf_ok_def b_data_length)
  have data: "b_data (?b\<lparr>b_pos := Suc (b_pos ?b + ?n)\<rparr>) = tl (dropWhile (\<lambda>ch. ch \<noteq> LF) ?s)"
    using b_data_advance [of ?b "Suc ?n"] drop_after_LF [OF True] by simp
  show ?thesis
    using assms True scan_lf_data [OF assms(1)] b_data_nth [OF assms(1) ne] ok data
    by (auto simp: consume_prelude_reply_def Let_def split: if_splits)
qed

lemma consume_preludes_spec:
  assumes "buf_ok (u_buffer (r_u r))" and "consume_preludes k r = (rc, r')"
    and "r_ctx r = Some ctx" "prelude_replies ctx = k"
  shows "buf_ok (u_buffer (r_u r')) \<and> (\<exists>j. prelude_spec k (b_data (u_buffer (r_u r))) = (rc, j, b_data (u_buffer (r_u r')))
    \<and> r_ctx r' = Some (ctx\<lparr>prelude_replies := j\<rparr>))"
  using assms
proof (induction k arbitrary: r ctx)
  case (Suc k)
  obtain prc r1 where c: "consume_prelude_reply r = (prc, r1)" by fastforce
  note spec = consume_prelude_spec [OF Suc.prems(1) c]
  show ?case
  proof (cases "prc = NGX_OK")
    case False
    with Suc.prems(2-4) c have "rc = prc" "r' = r1" "ctx = ctx\<lparr>prelude_replies := Suc k\<rparr>" by auto
    with False spec Suc.prems(3) show ?thesis by (auto simp: Let_def split: if_splits)
  next
    case True
    let ?r2 = "r1\<lparr>r_ctx := map_option (\<lambda>ctx. ctx\<lparr>prelude_replies := k\<rparr>) (r_ctx r1)\<rparr>"
    have "consume_preludes k ?r2 = (rc, r')" using Suc.prems c True by simp
    from Suc.IH [OF _ this, of "ctx\<lparr>prelude_replies := k\<rparr>"] spec True Suc.prems(3)
    show ?thesis by (auto simp: Let_def split: if_splits)
  qed
qed auto

lemma prelude_spec_OK_iff:
  "prelude_spec k s = (NGX_OK, j, t) \<longleftrightarrow> j = 0 \<and> (\<exists>lines. length lines = k
     \<and> (\<forall>l \<in> set lines. LF \<notin> set l) \<and> s = concat (map (\<lambda>l. CHR ''+'' # l @ [LF]) lines) @ t)"
proof (induction k arbitrary: s)
  case (Suc k)
  show ?case
  proof
    assume "prelude_spec (Suc k) s = (NGX_OK, j, t)"
    then have s: "LF \<in> set s" "hd s = CHR ''+''" "prelude_spec k (tl (dropWhile (\<lambda>ch. ch \<noteq> LF) s)) = (NGX_OK, j, t)"
      by (auto split: if_splits)
    then obtain lines where l: "length lines = k" "\<forall>l \<in> set lines. LF \<notin> set l" "j = 0"
      "tl (dropWhile (\<lambda>ch. ch \<noteq> LF) s) = concat (map (\<lambda>l. CHR ''+'' # l @ [LF]) lines) @ t"
      using Suc.IH by auto
    obtain xs ys where split: "s = xs @ LF # ys" "LF \<notin> set xs" "dropWhile (\<lambda>ch. ch \<noteq> LF) s = LF # ys"
      using line_split [OF s(1)] by blast
    with s(2) obtain l0 where l0: "xs = CHR ''+'' # l0" by (cases xs) auto
    with l l0 split show "j = 0 \<and> (\<exists>lines. length lines = Suc k
     \<and> (\<forall>l \<in> set lines. LF \<notin> set l) \<and> s = concat (map (\<lambda>l. CHR ''+'' # l @ [LF]) lines) @ t)"
      by (intro conjI exI [of _ "l0 # lines"]) auto
  next
    assume "j = 0 \<and> (\<exists>lines. length lines = Suc k
     \<and> (\<forall>l \<in> set lines. LF \<notin> set l) \<and> s = concat (map (\<lambda>l. CHR ''+'' # l @ [LF]) lines) @ t)"
    then obtain l0 lines where l: "length lines = k" "\<forall>l \<in> set (l0 # lines). LF \<notin> set l" "j = 0"
      "s = CHR ''+'' # l0 @ LF # concat (map (\<lambda>l. CHR ''+'' # l @ [LF]) lines) @ t"
      by (auto simp: length_Suc_conv)
    then have "dropWhile (\<lambda>ch. ch \<noteq> LF) s = LF # concat (map (\<lambda>l. CHR ''+'' # l @ [LF]) lines) @ t"
      by (auto simp: dropWhile_line)
    with l Suc.IH show "prelude_spec (Suc k) s = (NGX_OK, j, t)" by auto
  qed
qed auto


lemma prelude_spec_ERROR:
  assumes "\<forall>l \<in> set lines. LF \<notin> set l" and "length lines < k" and "LF \<notin> set l" "hd (l @ [LF]) \<noteq> CHR ''+''"
  shows "fst (prelude_spec k (concat (map (\<lambda>l. CHR ''+'' # l @ [LF]) lines) @ l @ LF # t)) = NGX_ERROR"
  using assms(1,2)
proof (induction lines arbitrary: k)
  case Nil
  then show ?case using assms(4) by (cases k; cases l) auto
next
  case (Cons l0 lines)
  then obtain k' where "k = Suc k'" "length lines < k'" by (cases k) auto
  with Cons show ?case by (auto simp: dropWhile_line)
qed

lemma process_reply_head_OK:
  assumes "buf_ok (u_buffer (r_u r))" and "process_reply_head E r = (rc, r')"
  shows "rc = NGX_OK \<longleftrightarrow> b_data (u_buffer (r_u r)) \<noteq> [] \<and> hd (b_data (u_buffer (r_u r))) = CHR ''*''"
    and "rc = NGX_OK \<Longrightarrow> b_data (u_buffer (r_u r')) = tl (b_data (u_buffer (r_u r)))
      \<and> r_ctx r' = r_ctx r \<and> buf_ok (u_buffer (r_u r'))"
proof -
  let ?b = "u_buffer (r_u r)"
  have len: "b_data ?b = [] \<longleftrightarrow> b_last ?b - b_pos ?b < 1"
    using b_data_length [OF assms(1)] by (metis length_0_conv less_one)
  have data: "b_data (?b\<lparr>b_pos := Suc (b_pos ?b)\<rparr>) = tl (b_data ?b)"
    using b_data_advance [of ?b 1] by (simp add: drop_Suc)
  have "rc = NGX_OK \<longleftrightarrow> b_data ?b \<noteq> [] \<and> b_mem ?b ! b_pos ?b = CHR ''*''"
    using assms(2)
    by (auto simp: process_reply_head_def Let_def len split: if_splits prod.splits)
  then show iff: "rc = NGX_OK \<longleftrightarrow> b_data ?b \<noteq> [] \<and> hd (b_data ?b) = CHR ''*''"
    using b_data_nth [OF assms(1)] by auto
  assume "rc = NGX_OK"
  with iff b_data_nth [OF assms(1)] have "b_mem ?b ! b_pos ?b = CHR ''*''" "b_pos ?b < b_last ?b" by auto
  with assms data \<open>rc = NGX_OK\<close> show "b_data (u_buffer (r_u r')) = tl (b_data ?b)
      \<and> r_ctx r' = r_ctx r \<and> buf_ok (u_buffer (r_u r'))"
    by (auto simp: process_reply_head_def Let_def buf_ok_def)
qed

text \<open>C13: When the head of the reply is accepted.  \<open>process_header\<close> returns \<open>NGX_OK\<close>, with status 200,
  exactly when the unread bytes are one \<open>+\<close> line for every AUTH/SELECT command sent, then the type
  byte \<open>*\<close>; what follows the type byte is left unread for the reply parser.\<close>

theorem header_accepts:
  assumes "buf_ok (u_buffer (r_u r))" and "r_ctx r = Some ctx" and "process_header E r = (rc, r')"
  shows "(rc = NGX_OK \<longleftrightarrow> (\<exists>lines t. length lines = prelude_replies ctx \<and> (\<forall>l \<in> set lines. LF \<notin> set l)
      \<and> b_data (u_buffer (r_u r)) = concat (map (\<lambda>l. CHR ''+'' # l @ [LF]) lines) @ CHR ''*'' # t
      \<and> (rc = NGX_OK \<longrightarrow> b_data (u_buffer (r_u r')) = t)))
    \<and> (rc = NGX_OK \<longrightarrow> u_status (r_u r') = ST_OK \<and> buf_ok (u_buffer (r_u r'))
        \<and> r_ctx r' = Some (ctx\<lparr>prelude_replies := 0\<rparr>))"
proof -
  obtain rc1 r1 where c: "consume_preludes (prelude_replies ctx) r = (rc1, r1)" by fastforce
  obtain j where b1: "buf_ok (u_buffer (r_u r1))"
    and spec: "prelude_spec (prelude_replies ctx) (b_data (u_buffer (r_u r))) = (rc1, j, b_data (u_buffer (r_u r1)))"
    and ctx1: "r_ctx r1 = Some (ctx\<lparr>prelude_replies := j\<rparr>)"
    using consume_preludes_spec [OF assms(1) c assms(2) refl] by blast
  have unique: "lines @ CHR ''*'' # t = s \<Longrightarrow> lines @ t' = s \<Longrightarrow> t' = CHR ''*'' # t" for lines t t' s :: ngx_str
    by auto
  show ?thesis
  proof (cases "rc1 = NGX_OK")
    case False
    with assms(2,3) c have "rc = rc1" by (simp add: process_header_def)
    moreover have "\<not> (\<exists>lines t. length lines = prelude_replies ctx \<and> (\<forall>l \<in> set lines. LF \<notin> set l)
      \<and> b_data (u_buffer (r_u r)) = concat (map (\<lambda>l. CHR ''+'' # l @ [LF]) lines) @ CHR ''*'' # t)"
      using spec False prelude_spec_OK_iff by (metis fst_conv)
    ultimately show ?thesis using False by blast
  next
    case True
    with assms(2,3) c have h: "process_reply_head E r1 = (rc, r')" by (simp add: process_header_def)
    note ok = process_reply_head_OK [OF b1 h]
    have st: "rc = NGX_OK \<Longrightarrow> u_status (r_u r') = ST_OK"
      using head_frame_process_reply_head [OF h] by simp
    from spec True have j: "j = 0" using prelude_spec_OK_iff by metis
    have eq: "(\<exists>lines. length lines = prelude_replies ctx \<and> (\<forall>l \<in> set lines. LF \<notin> set l)
      \<and> b_data (u_buffer (r_u r)) = concat (map (\<lambda>l. CHR ''+'' # l @ [LF]) lines) @ t)
      \<longleftrightarrow> t = b_data (u_buffer (r_u r1))" for t
    proof -
      have "prelude_spec (prelude_replies ctx) (b_data (u_buffer (r_u r))) = (NGX_OK, 0, t)
          \<longleftrightarrow> t = b_data (u_buffer (r_u r1))"
        using spec True j by auto
      then show ?thesis by (simp only: prelude_spec_OK_iff simp_thms)
    qed
    have "b_data (u_buffer (r_u r1)) = CHR ''*'' # t \<longleftrightarrow> rc = NGX_OK \<and> t = tl (b_data (u_buffer (r_u r1)))" for t
      using ok(1) by (cases "b_data (u_buffer (r_u r1))") auto
    with eq ok(2) st ctx1 j show ?thesis by metis
  qed
qed

theorem header_accepts_witness:
  "fst (process_header sample_env (head_request 2 (''+OK'' @ CRLF @ ''+OK'' @ CRLF @ ''*5''))) = NGX_OK"
proof (rule ccontr)
  let ?r = "head_request 2 (''+OK'' @ CRLF @ ''+OK'' @ CRLF @ ''*5'')"
  let ?lines = "[[CHR ''O'', CHR ''K'', CR], [CHR ''O'', CHR ''K'', CR]]"
  obtain rc r where ph: "process_header sample_env ?r = (rc, r)" by fastforce
  note acc = conjunct1 [OF header_accepts [OF head_request_simps(3,1) ph]]
  assume "fst (process_header sample_env ?r) \<noteq> NGX_OK"
  then have no: "rc \<noteq> NGX_OK" using ph by simp
  have "rc = NGX_OK"
    by (rule iffD2 [OF acc], intro exI [of _ ?lines] exI [of _ "''5''"]) (use no in simp)
  with no show False ..
qed

text \<open>C24: A refused AUTH or SELECT ends the request: if one of the replies that are due is a line that does
  not open with \<open>+\<close>, \<open>process_header\<close> returns \<open>NGX_ERROR\<close> whatever follows it, so a verdict that
  Redis sends after a failed AUTH is never read.\<close>

theorem header_auth_refused:
  assumes "buf_ok (u_buffer (r_u r))" and "r_ctx r = Some ctx" and "process_header E r = (rc, r')"
    and "\<forall>l \<in> set lines. LF \<notin> set l" and "length lines < prelude_replies ctx"
    and "LF \<notin> set l" "hd (l @ [LF]) \<noteq> CHR ''+''"
    and "b_data (u_buffer (r_u r)) = concat (map (\<lambda>l. CHR ''+'' # l @ [LF]) lines) @ l @ LF # t"
  shows "rc = NGX_ERROR"
proof -
  obtain rc1 r1 where c: "consume_preludes (prelude_replies ctx) r = (rc1, r1)" by fastforce
  have "rc1 = NGX_ERROR"
    using consume_preludes_spec [OF assms(1) c assms(2) refl] prelude_spec_ERROR [OF assms(4-7), of t] assms(8)
    by auto
  with assms(2,3) c show ?thesis by (simp add: process_header_def)
qed

theorem header_auth_refused_witness:
  "fst (process_header sample_env (head_request 2 (''-ERR'' @ CRLF @ ''+OK'' @ CRLF @ ''*5''))) = NGX_ERROR"
proof -
  let ?r = "head_request 2 (''-ERR'' @ CRLF @ ''+OK'' @ CRLF @ ''*5'')"
  obtain rc r where ph: "process_header sample_env ?r = (rc, r)" by fastforce
  from header_auth_refused [OF _ _ ph, of "sample_ctx\<lparr>prelude_replies := 2\<rparr>" "[]" "[CHR ''-'', CHR ''E'', CHR ''R'', CHR ''R'', CR]"]
  show ?thesis using ph by simp
qed

section \<open>Sending EVAL\<close>

lemma b_data_split:
  assumes "n \<le> b_last b - b_pos b"
  shows "b_data b = span_of (b_mem b) (b_pos b) (b_pos b + n) @ b_data (b\<lparr>b_pos := b_pos b + n\<rparr>)"
proof -
  have "take (b_last b - b_pos b) (drop (b_pos b) (b_mem b)) =
      take n (drop (b_pos b) (b_mem b)) @ take (b_last b - b_pos b - n) (drop n (drop (b_pos b) (b_mem b)))"
    using assms by (metis le_add_diff_inverse take_add)
  then show ?thesis by (simp add: b_data_def span_of_def add.commute)
qed

lemma send_loop_split:
  "send_loop evs b = (res, evs', b', out) \<Longrightarrow> buf_ok b \<Longrightarrow>
   b_data b = out @ b_data b' \<and> buf_ok b' \<and> b_mem b' = b_mem b \<and> (res = All_sent \<longleftrightarrow> b_data b' = [])"
proof (induction evs b arbitrary: res evs' b' out rule: send_loop.induct)
  case (1 evs b)
  show ?case
  proof (cases "b_pos b < b_last b")
    case False
    with 1(2,3) show ?thesis by (auto simp: send_loop.simps [of evs b] b_data_def span_of_def buf_ok_def)
  next
    case True
    then have ne: "b_data b \<noteq> []" using 1(3) by (auto simp: b_data_def span_of_def buf_ok_def)
    show ?thesis
    proof (cases evs)
      case Nil
      with True ne 1(2,3) show ?thesis by (auto simp: send_loop.simps [of "[]" b])
    next
      case (Cons ev evs1)
      show ?thesis
      proof (cases ev)
        case (Send_bytes n)
        let ?n = "min n (b_last b - b_pos b)"
        let ?b = "b\<lparr>b_pos := b_pos b + ?n\<rparr>"
        obtain out1 where l: "send_loop evs1 ?b = (res, evs', b', out1)"
          and out: "out = span_of (b_mem b) (b_pos b) (b_pos b + ?n) @ out1"
          using 1(2) True Cons Send_bytes by (auto simp: send_loop.simps [of "Send_bytes n # evs1" b] Let_def split: prod.splits)
        have "buf_ok ?b" using 1(3) True by (auto simp: buf_ok_def)
        with l 1(1) [of ev evs1 n ?n] True Cons Send_bytes
        have "b_data ?b = out1 @ b_data b' \<and> buf_ok b' \<and> b_mem b' = b_mem b \<and> (res = All_sent \<longleftrightarrow> b_data b' = [])"
          by simp
        with b_data_split [of ?n b] out show ?thesis by simp
      qed (use True ne Cons 1(2,3) in \<open>auto simp: send_loop.simps [of "Send_again # evs1" b] send_loop.simps [of "Send_error # evs1" b]\<close>)
    qed
  qed
qed

definition sent_effects :: "ngx_str \<Rightarrow> effect list" where
  "sent_effects out = (if out = [] then [] else [Sent out])"

lemma send_eval_no_loss_lemma:
  assumes "send_eval r = (rc, r')" and "u_conn (r_u r) = Some c" and "u_request_bufs (r_u r) = a # as"
    and "a < length (r_pool r)" and "buf_ok (r_pool r ! a)"
  shows "\<exists>out c'. b_data (r_pool r ! a) = out @ b_data (r_pool r' ! a) \<and> buf_ok (r_pool r' ! a)
    \<and> r_effects r' = r_effects r @ sent_effects out \<and> u_conn (r_u r') = Some c'
    \<and> c_sent c' = c_sent c + length out
    \<and> rc \<in> {NGX_OK, NGX_ERROR, HTTP_BAD_GATEWAY}
    \<and> (rc = NGX_OK \<longrightarrow> (if b_data (r_pool r' ! a) = []
        then u_write_handler (r_u r') = WH_dummy \<and> \<not> c_wr_timer_set c'
        else u_write_handler (r_u r') = WH_send_eval \<and> c_wr_timer_set c'))"
proof -
  obtain res evs b out where l: "send_loop (c_send c) (r_pool r ! a) = (res, evs, b, out)"
    by (cases "send_loop (c_send c) (r_pool r ! a)") simp
  note spl = send_loop_split [OF l assms(5)]
  show ?thesis
  proof (cases res)
    case All_sent
    with assms(1-4) l spl show ?thesis
      by (intro exI [of _ out]) (cases "out = []"; simp add: send_eval_def Let_def sent_effects_def emit_def; force)
  next
    case Send_blocked
    with assms(1-4) l spl show ?thesis
      by (intro exI [of _ out]) (cases "out = []"; cases "c_wr_event_ok c";
          simp add: send_eval_def Let_def sent_effects_def emit_def; force)
  next
    case Send_broken
    with assms(1-4) l spl show ?thesis
      by (intro exI [of _ out]) (cases "out = []"; simp add: send_eval_def Let_def sent_effects_def emit_def; force)
  qed
qed

text \<open>C31: Writing EVAL survives short writes: what \<open>send_eval\<close> puts on the connection, followed by what it
  leaves in the request buffer, is what the buffer held; with something left it has armed the write
  handler and the send timer to go on, with nothing left it has disarmed both, and a broken
  connection is 502.\<close>

theorem send_eval_no_loss:
  assumes "send_eval r = (rc, r')" and "u_conn (r_u r) = Some c" and "u_request_bufs (r_u r) = a # as"
    and "a < length (r_pool r)" and "buf_ok (r_pool r ! a)"
  shows "\<exists>out c'. b_data (r_pool r ! a) = out @ b_data (r_pool r' ! a) \<and> buf_ok (r_pool r' ! a)
    \<and> r_effects r' = r_effects r @ sent_effects out \<and> u_conn (r_u r') = Some c'
    \<and> c_sent c' = c_sent c + length out
    \<and> rc \<in> {NGX_OK, NGX_ERROR, HTTP_BAD_GATEWAY}
    \<and> (rc = NGX_OK \<longrightarrow> (if b_data (r_pool r' ! a) = []
        then u_write_handler (r_u r') = WH_dummy \<and> \<not> c_wr_timer_set c'
        else u_write_handler (r_u r') = WH_send_eval \<and> c_wr_timer_set c'))"
  using assms by (rule send_eval_no_loss_lemma)

theorem send_eval_no_loss_witness:
  "\<exists>out r. r_effects (snd (send_eval (sample_request\<lparr>r_pool := [frame_buf ''PING''],
       r_u := sample_upstream\<lparr>u_request_bufs := [0], u_conn := Some (sample_conn\<lparr>c_send := [Send_bytes 3]\<rparr>)\<rparr>\<rparr>))) =
     sent_effects out \<and> ''PING'' = out @ r"
proof -
  let ?r = "sample_request\<lparr>r_pool := [frame_buf ''PING''],
       r_u := sample_upstream\<lparr>u_request_bufs := [0], u_conn := Some (sample_conn\<lparr>c_send := [Send_bytes 3]\<rparr>)\<rparr>\<rparr>"
  have "buf_ok (frame_buf ''PING'')" by (simp add: frame_buf_def buf_ok_def)
  with send_eval_no_loss [of ?r "fst (send_eval ?r)" "snd (send_eval ?r)" "sample_conn\<lparr>c_send := [Send_bytes 3]\<rparr>" 0 "[]"]
  show ?thesis by (auto simp: sample_request_def)
qed

lemma send_sideD:
  assumes "send_side u = send_side v"
  shows "u_request_bufs u = u_request_bufs v" "u_buffer u = u_buffer v"
  using arg_cong [OF assms, of u_request_bufs] arg_cong [OF assms, of u_buffer]
  by (simp_all add: send_side_def)

lemma create_request_fallback:
  assumes "decimal_sprintf (e_p E)" "lc_zone (e_lc E) = Some z" "r_ctx r = Some ctx" "eval_fallback ctx"
    and "fits (e_p E) (eval_argv E z True (key ctx))" and "r_allocs r = []"
  shows "create_request E r = (NGX_OK, r\<lparr>r_pool := r_pool r @
      [(frame_buf (command_bytes (e_p E) (eval_argv E z True (key ctx))))\<lparr>b_last_buf := True\<rparr>],
      r_u := (r_u r)\<lparr>u_request_bufs := [length (r_pool r)]\<rparr>\<rparr>)"
  using assms
  by (simp add: create_request_def set_uint_args_no_failure eval_argv_def build_command_no_failure alloc_Nil Let_def)

lemma noscript_head:
  assumes "buf_ok (u_buffer (r_u r))" "b_data (u_buffer (r_u r)) = ''-NOSCRIPT'' @ s" "LF \<in> set s"
    and "r_ctx r = Some ctx" "\<not> eval_fallback ctx" "prelude_replies ctx = 0"
  shows "process_header E r =
    (case resend_eval E r of (rc, r) \<Rightarrow> if rc \<noteq> NGX_OK then (rc, r) else (NGX_AGAIN, r))"
proof -
  let ?b = "u_buffer (r_u r)"
  let ?b1 = "?b\<lparr>b_pos := Suc (b_pos ?b)\<rparr>"
  have len: "9 \<le> b_last ?b - b_pos ?b"
    using b_data_length [OF assms(1)] assms(2) by simp
  then have nle: "\<not> b_last ?b \<le> b_pos ?b" by simp
  have chr: "b_mem ?b ! b_pos ?b = CHR ''-''"
    using b_data_nth [OF assms(1)] assms(2) by simp
  have ok1: "buf_ok ?b1" using assms(1) len by (auto simp: buf_ok_def)
  moreover have "b_data ?b1 = ''NOSCRIPT'' @ s"
    using b_data_advance [of ?b 1] assms(2) by simp
  ultimately have "scan_lf ?b1 (b_pos ?b1) \<noteq> b_last ?b1"
    using scan_lf_data(2) [of ?b1] assms(3) by simp
  then have scan: "scan_lf ?b (Suc (b_pos ?b)) \<noteq> b_last ?b" by (simp add: scan_lf_def)
  have "take 8 (drop 1 (take (b_last ?b - b_pos ?b) (drop (b_pos ?b) (b_mem ?b)))) = ''NOSCRIPT''"
    using assms(2) by (simp add: b_data_def span_of_def)
  then have span: "span_of (b_mem ?b) (Suc (b_pos ?b)) (9 + b_pos ?b) = ''NOSCRIPT''"
    using len by (auto simp: span_of_def drop_take min_def split: if_splits)
  show ?thesis
    using assms(4-6) len chr scan span nle
    by (simp add: process_header_def process_reply_head_def Let_def add.commute)
qed

text \<open>C16: The NOSCRIPT fallback.  On the first NOSCRIPT reply, \<open>process_header\<close> rebuilds the request as
  the EVAL call alone, discards the reply, resets the parser and the counters, and starts to send:
  the bytes sent now and the bytes left in the request buffer make up exactly the EVAL command,
  and the caller is told to wait (or gets 502 or an error from the write side).\<close>

theorem noscript_resends_eval:
  assumes P: "decimal_sprintf (e_p E)" "lc_zone (e_lc E) = Some z" "r_ctx r = Some ctx"
    "\<not> eval_fallback ctx" "prelude_replies ctx = 0" "r_allocs r = []"
    "fits (e_p E) (eval_argv E z True (key ctx))" "chain_in r (prelude_chain ctx)"
    and conn: "u_conn (r_u r) = Some c"
    and reply: "buf_ok (u_buffer (r_u r))" "b_data (u_buffer (r_u r)) = ''-NOSCRIPT'' @ s" "LF \<in> set s"
    and ph: "process_header E r = (rc, r')"
  shows "\<exists>out a. r_effects r' = r_effects r @ sent_effects out \<and> u_request_bufs (r_u r') = [a]
    \<and> out @ b_data (r_pool r' ! a) = command_bytes (e_p E) (eval_argv E z True (key ctx))
    \<and> b_data (u_buffer (r_u r')) = []
    \<and> map_option (\<lambda>c. (eval_fallback c, state c, limit c, remaining c, reset c, retry_after c)) (r_ctx r')
        = Some (True, sw_start, 0, 0, 0, -1)
    \<and> rc \<in> {NGX_AGAIN, NGX_ERROR, HTTP_BAD_GATEWAY}
    \<and> (rc = NGX_AGAIN \<longrightarrow> u_write_handler (r_u r') =
          (if b_data (r_pool r' ! a) = [] then WH_dummy else WH_send_eval))"
proof -
  let ?cmd = "command_bytes (e_p E) (eval_argv E z True (key ctx))"
  let ?a = "length (r_pool r)"
  let ?r1 = "r\<lparr>r_ctx := Some (ctx\<lparr>eval_fallback := True\<rparr>)\<rparr>"
  let ?ctx = "ctx\<lparr>eval_fallback := True, state := sw_start, limit := 0, remaining := 0,
                      reset := 0, retry_after := -1, prelude_replies := 0\<rparr>"
  let ?r2 = "?r1\<lparr>r_pool := r_pool r @ [(frame_buf ?cmd)\<lparr>b_last_buf := True\<rparr>],
      r_u := (r_u r)\<lparr>u_request_bufs := [?a], u_buffer := buf_rewind (u_buffer (r_u r))\<rparr>, r_ctx := Some ?ctx\<rparr>"
  have cr: "create_request E ?r1 = (NGX_OK, ?r1\<lparr>r_pool := r_pool r @ [(frame_buf ?cmd)\<lparr>b_last_buf := True\<rparr>],
      r_u := (r_u r)\<lparr>u_request_bufs := [?a]\<rparr>\<rparr>)"
    using P by (subst create_request_fallback [of E z _ "ctx\<lparr>eval_fallback := True\<rparr>"]) auto
  have re: "resend_eval E r = send_eval ?r2"
    using P(3) cr by (simp add: resend_eval_def Let_def)
  obtain rc1 r1 where se: "send_eval ?r2 = (rc1, r1)" by fastforce
  have r1: "r' = r1" "rc = (if rc1 = NGX_OK then NGX_AGAIN else rc1)"
    using ph noscript_head [OF reply P(3-5), of E] re se by (auto split: if_splits)
  have pool: "r_pool ?r2 ! ?a = (frame_buf ?cmd)\<lparr>b_last_buf := True\<rparr>" "buf_ok (r_pool ?r2 ! ?a)"
    by (simp_all add: frame_buf_def buf_ok_def)
  obtain out c' where s: "?cmd = out @ b_data (r_pool r1 ! ?a)" "r_effects r1 = r_effects r @ sent_effects out"
      "rc1 \<in> {NGX_OK, NGX_ERROR, HTTP_BAD_GATEWAY}"
      "rc1 = NGX_OK \<longrightarrow> u_write_handler (r_u r1) = (if b_data (r_pool r1 ! ?a) = [] then WH_dummy else WH_send_eval)"
    using send_eval_no_loss_lemma [OF se, of c ?a "[]"] conn pool by auto
  have side: "send_side (r_u r1) = send_side (r_u ?r2)" and ctx: "r_ctx r1 = r_ctx ?r2"
    using send_eval_frame [OF se] by blast+
  have f: "u_request_bufs (r_u r1) = [?a]" "u_buffer (r_u r1) = buf_rewind (u_buffer (r_u r))" "r_ctx r1 = Some ?ctx"
    using send_sideD [OF side] ctx by simp_all
  show ?thesis
  proof (intro exI [of _ out] exI [of _ ?a] conjI)
    show "out @ b_data (r_pool r' ! ?a) = ?cmd" using s(1) r1(1) by simp
    show "rc \<in> {NGX_AGAIN, NGX_ERROR, HTTP_BAD_GATEWAY}" using s(3) r1(2) by auto
    show "rc = NGX_AGAIN \<longrightarrow> u_write_handler (r_u r') =
          (if b_data (r_pool r' ! ?a) = [] then WH_dummy else WH_send_eval)"
      using s(3,4) r1 by auto
  qed (use s(2) f r1(1) in \<open>simp_all add: b_data_def buf_rewind_def\<close>)
qed

theorem noscript_resends_eval_witness:
  "\<exists>out rest. r_effects (snd (process_header sample_env (head_request 0 (''-NOSCRIPT'' @ CRLF)))) = sent_effects out
    \<and> out @ rest = command_bytes ascii_platform
        [''EVAL'', ''return 1'', ''1'', ''user:1'', ''10'', ''60'', ''5'', ''1'']"
proof -
  let ?r = "head_request 0 (''-NOSCRIPT'' @ CRLF)"
  have "e_p sample_env = ascii_platform" by (simp add: sample_env_def)
  with noscript_resends_eval [of sample_env sample_zone ?r "sample_ctx\<lparr>prelude_replies := 0\<rparr>" sample_conn CRLF
      "fst (process_header sample_env ?r)" "snd (process_header sample_env ?r)"] sample_fits sample_argvs
  show ?thesis by (fastforce simp: chain_in_def)
qed

end
