(* ===== verification/RL_Upstream.thy ===== *)
theory RL_Upstream
  imports RL_Header
begin

text \<open>
  The event side, \<open>src/ngx_http_ratelimit_upstream.c\<close>: the finalisation of the upstream request,
  the read handlers for the head and the body of the reply, and the write handler of the EVAL
  fallback.  The two read loops consume the connection's list of receive events; they terminate
  because every turn that goes on has taken bytes or an event from it.
\<close>

section \<open>Finalisation\<close>

text \<open>The statistics block of \<open>ngx_http_ratelimit_finalize_upstream_request\<close>.\<close>

definition account :: "u64 \<Rightarrow> upstream \<Rightarrow> upstream" where
  "account now u =
     (if u_response_time u \<noteq> -1 then u
      else
        let u = u\<lparr>u_response_time := now - u_start_time u\<rparr>;
            u = (case u_pipe u of None \<Rightarrow> u
                 | Some (rl, pre) \<Rightarrow>
                     if rl = 0 then u
                     else u\<lparr>u_bytes_received := u_bytes_received u + (rl - pre), u_response_length := rl\<rparr>)
        in case u_conn u of None \<Rightarrow> u | Some c \<Rightarrow> u\<lparr>u_bytes_sent := int (c_sent c)\<rparr>)"

text \<open>Releasing the peer and closing the connection.\<close>

definition release_peer :: "platform \<Rightarrow> request \<Rightarrow> request" where
  "release_peer P r =
     (if u_peer_free (r_u r) \<and> u_peer_sockaddr (r_u r)
      then
        let r = emit Free_peer r;
            r = (if p_keeps_connection P (r_u r) then map_u (\<lambda>u. u\<lparr>u_conn := None\<rparr>) r else r)
        in map_u (\<lambda>u. u\<lparr>u_peer_sockaddr := False\<rparr>) r
      else r)"

definition close_peer :: "request \<Rightarrow> request" where
  "close_peer r =
     (let r = (case u_conn (r_u r) of None \<Rightarrow> r
               | Some c \<Rightarrow> emit Close_connection (if c_has_pool c then emit Destroy_conn_pool r else r))
      in map_u (\<lambda>u. u\<lparr>u_conn := None\<rparr>) r)"

text \<open>\<open>ngx_http_ratelimit_finalize_upstream_request\<close>.  The last two calls, which release the
  reference of the upstream round trip and re-enter the phase engine, are recorded as effects.\<close>

definition finalize_upstream_request :: "env \<Rightarrow> request \<Rightarrow> int \<Rightarrow> request" where
  "finalize_upstream_request E r rc =
     (if \<not> u_cleanup (r_u r) then emit (Finalize_request NGX_DONE) r
      else
        let r = map_u (\<lambda>u. u\<lparr>u_cleanup := False\<rparr>) r;
            r = (if u_resolving (r_u r)
                 then map_u (\<lambda>u. u\<lparr>u_resolving := False\<rparr>) (emit Resolve_done r) else r);
            r = map_u (account (r_msec r)) r;
            r = finalize_request E r;
            r = release_peer (e_p E) r;
            r = close_peer r;
            r = r\<lparr>r_read_event_handler := RR_block_reading, r_write_event_handler := RW_run_phases\<rparr>
        in if rc = NGX_DECLINED then r
           else if rc \<noteq> NGX_OK \<and> rc \<noteq> NGX_DONE
           then emit Run_phases (emit (Finalize_request NGX_DONE)
                  (map_u (\<lambda>u. u\<lparr>u_status := if rc = NGX_ERROR then of_int HTTP_INTERNAL_SERVER_ERROR
                                             else of_int rc\<rparr>) r))
           else emit Run_phases (emit (Finalize_request rc) r))"

section \<open>Receiving\<close>

text \<open>\<open>c->recv(c, last, sz)\<close>: the return value, the bytes, and the connection with the flags
  nginx sets (\<open>eof\<close> with 0, \<open>error\<close> with \<open>NGX_ERROR\<close>, \<open>ready\<close> off when nothing is
  left).  Bytes beyond \<open>sz\<close> stay in the socket.\<close>

fun recv :: "conn \<Rightarrow> nat \<Rightarrow> int \<times> char list \<times> conn" where
  "recv c sz = (case c_recv c of
     [] \<Rightarrow> (NGX_AGAIN, [], c\<lparr>c_rd_ready := False\<rparr>)
   | Recv_again # evs \<Rightarrow> (NGX_AGAIN, [], c\<lparr>c_recv := evs, c_rd_ready := False\<rparr>)
   | Recv_error # evs \<Rightarrow> (NGX_ERROR, [], c\<lparr>c_recv := evs, c_rd_error := True\<rparr>)
   | Recv_eof # evs \<Rightarrow> (0, [], c\<lparr>c_recv := evs, c_rd_eof := True\<rparr>)
   | Recv_data bs rdy # evs \<Rightarrow>
       if bs = [] then (0, [], c\<lparr>c_recv := evs, c_rd_eof := True\<rparr>)
       else if length bs \<le> sz then (int (length bs), bs, c\<lparr>c_recv := evs, c_rd_ready := rdy\<rparr>)
       else (int sz, take sz bs, c\<lparr>c_recv := Recv_data (drop sz bs) rdy # evs, c_rd_ready := True\<rparr>))"

declare recv.simps [simp del]

text \<open>What is left in the socket: a measure that every receive which is not empty decreases.\<close>

fun ev_size :: "recv_ev \<Rightarrow> nat" where
  "ev_size (Recv_data bs rdy) = Suc (length bs)"
| "ev_size _ = 1"

definition recv_size :: "request \<Rightarrow> nat" where
  "recv_size r = (case u_conn (r_u r) of None \<Rightarrow> 0 | Some c \<Rightarrow> sum_list (map ev_size (c_recv c)))"

text \<open>Storing the received bytes; the header loop moves \<open>last\<close> itself, the filter does it for the
  body loop.\<close>

definition received :: "conn \<Rightarrow> char list \<Rightarrow> request \<Rightarrow> request" where
  "received c bs r = map_u (\<lambda>u. u\<lparr>u_conn := Some c, u_buffer := buf_store (u_buffer u) bs\<rparr>) r"

lemma recv_decreases:
  "recv c sz = (n, bs, c') \<Longrightarrow> n \<noteq> NGX_AGAIN \<Longrightarrow> n \<noteq> 0 \<or> 0 < sz \<Longrightarrow>
   sum_list (map ev_size (c_recv c')) < sum_list (map ev_size (c_recv c))"
  by (auto simp: recv.simps split: list.splits recv_ev.splits if_splits)

lemma recv_bytes:
  "recv c sz = (n, bs, c') \<Longrightarrow> length bs \<le> sz \<and> n = (if bs = [] then n else int (length bs))
     \<and> (0 < n \<longrightarrow> n = int (length bs))"
  by (auto simp: recv.simps split: list.splits recv_ev.splits if_splits)

lemma recv_codes: "recv c sz = (n, bs, c') \<Longrightarrow> n = NGX_AGAIN \<or> n = NGX_ERROR \<or> 0 \<le> n"
  by (auto simp: recv.simps split: list.splits recv_ev.splits if_splits)

text \<open>The filter does not touch the connection.\<close>

lemma input_filter_u_rest:
  "input_filter r n = (rc, r') \<Longrightarrow> u_rest (r_u r') = u_rest (r_u r)"
  by (auto simp: input_filter_def process_reply_frame(3) split: option.splits prod.splits)

lemma u_restD:
  assumes "u_rest u = u_rest v"
  shows "u_conn u = u_conn v" "u_cleanup u = u_cleanup v" "u_request_bufs u = u_request_bufs v"
    "u_request_sent u = u_request_sent v" "u_start_null u = u_start_null v"
    "u_out_bufs u = u_out_bufs v" "u_busy_bufs u = u_busy_bufs v"
    "u_read_handler u = u_read_handler v" "u_write_handler u = u_write_handler v"
  using arg_cong [OF assms, of u_conn] arg_cong [OF assms, of u_cleanup]
    arg_cong [OF assms, of u_request_bufs] arg_cong [OF assms, of u_request_sent]
    arg_cong [OF assms, of u_start_null] arg_cong [OF assms, of u_out_bufs]
    arg_cong [OF assms, of u_busy_bufs] arg_cong [OF assms, of u_read_handler]
    arg_cong [OF assms, of u_write_handler]
  by (simp_all add: u_rest_def)

section \<open>The body of the reply\<close>

text \<open>The loop of \<open>ngx_http_ratelimit_process_redis_response\<close>.  \<open>Returned\<close> is a
  \<open>return\<close> from inside the loop, \<open>Broke\<close> a \<open>break\<close>.\<close>

datatype loop_result = Returned request | Broke request

function body_loop :: "env \<Rightarrow> request \<Rightarrow> bool \<Rightarrow> loop_result" where
  "body_loop E r do_write =
     (case u_conn (r_u r) of None \<Rightarrow> Returned r | Some c \<Rightarrow>
      if do_write \<and> (u_out_bufs (r_u r) \<or> u_busy_bufs (r_u r))
      then Returned (finalize_upstream_request E r NGX_DONE)
      else if do_write \<and> u_length (r_u r) = 0
      then Returned (finalize_upstream_request E r NGX_DONE)
      else if do_write \<and> c_rd_eof c
      then Returned (finalize_upstream_request E
             (emit (Log_error ''redis prematurely closed connection'') r) HTTP_BAD_GATEWAY)
      else if do_write \<and> c_rd_error c
      then Returned (finalize_upstream_request E r HTTP_BAD_GATEWAY)
      else
        let r = (if do_write then map_u (\<lambda>u. u\<lparr>u_buffer := buf_rewind (u_buffer u)\<rparr>) r else r);
            b = u_buffer (r_u r);
            sz = b_end b - b_last b
        in if sz \<noteq> 0 \<and> c_rd_ready c
           then case recv c sz of (n, bs, c) \<Rightarrow>
             let r = received c bs r in
             if n = NGX_AGAIN then Broke r
             else if 0 < n then
               let r = map_u (\<lambda>u. u\<lparr>u_bytes_received := u_bytes_received u + n,
                                   u_response_length := u_response_length u + n\<rparr>) r
               in case input_filter r (nat n) of (rc, r) \<Rightarrow>
                    if rc = NGX_ERROR then Returned (finalize_upstream_request E r NGX_ERROR)
                    else body_loop E r True
             else body_loop E r True
           else Broke r)"
  by pat_completeness auto
termination
proof (relation "measure (\<lambda>(E, r, do_write). recv_size r)", goal_cases)
  case 1
  show ?case by simp
next
  case (2 E r do_write c r1 b sz n y bs c' r2 r3 rc r4)
  from 2(10,11) have "recv c sz = (n, bs, c')" by simp
  then have dec: "sum_list (map ev_size (c_recv c')) < sum_list (map ev_size (c_recv c))"
    by (rule recv_decreases) (use 2(9,13) in simp_all)
  have "u_rest (r_u r4) = u_rest (r_u r3)" by (rule input_filter_u_rest) (rule 2(16) [symmetric])
  then have "u_conn (r_u r4) = u_conn (r_u r3)" by (rule u_restD)
  also have "\<dots> = Some c'" by (simp add: 2(12,15) received_def)
  finally show ?case using dec 2(1) by (simp add: recv_size_def)
next
  case (3 E r do_write c r1 b sz n y bs c' r2)
  from 3(10,11) have "recv c sz = (n, bs, c')" by simp
  then have dec: "sum_list (map ev_size (c_recv c')) < sum_list (map ev_size (c_recv c))"
    by (rule recv_decreases) (use 3(9,13) in simp_all)
  have "u_conn (r_u r2) = Some c'" by (simp add: 3(12) received_def)
  with dec 3(1) show ?case by (simp add: recv_size_def)
qed

declare body_loop.simps [simp del]

text \<open>\<open>ngx_http_ratelimit_process_redis_response\<close>.\<close>

definition set_rd_timer :: "bool \<Rightarrow> request \<Rightarrow> request" where
  "set_rd_timer on r =
     map_u (\<lambda>u. u\<lparr>u_conn := map_option (\<lambda>c. c\<lparr>c_rd_timer_set := on\<rparr>) (u_conn u)\<rparr>) r"

definition process_redis_response :: "env \<Rightarrow> request \<Rightarrow> bool \<Rightarrow> request" where
  "process_redis_response E r do_write =
     (case body_loop E r (do_write \<or> u_length (r_u r) = 0) of
        Returned r \<Rightarrow> r
      | Broke r \<Rightarrow>
          (case u_conn (r_u r) of None \<Rightarrow> r | Some c \<Rightarrow>
           if \<not> c_rd_event_ok c then finalize_upstream_request E r NGX_ERROR
           else if c_rd_active c \<and> \<not> c_rd_ready c then set_rd_timer True r
           else if c_rd_timer_set c then set_rd_timer False r
           else r))"

text \<open>\<open>ngx_http_ratelimit_read_body_handler\<close>.\<close>

definition read_body_handler :: "env \<Rightarrow> request \<Rightarrow> request" where
  "read_body_handler E r =
     (case u_conn (r_u r) of None \<Rightarrow> r | Some c \<Rightarrow>
      if c_rd_timedout c
      then finalize_upstream_request E (emit (Log_error ''redis timed out'') r) HTTP_GATEWAY_TIME_OUT
      else process_redis_response E r False)"

definition dummy_handler :: "request \<Rightarrow> request" where
  "dummy_handler r = emit (Log_error ''ngx_http_ratelimit_dummy_handler should not be called by the upstream'') r"

text \<open>\<open>ngx_http_ratelimit_process_response\<close>.\<close>

definition process_response :: "env \<Rightarrow> request \<Rightarrow> request" where
  "process_response E r =
     (let r = map_u (\<lambda>u. u\<lparr>u_read_handler := RH_body, u_write_handler := WH_dummy\<rparr>) r in
      if filter_init r = NGX_ERROR then finalize_upstream_request E r NGX_ERROR
      else if \<not> r_tcp_nodelay_ok r then finalize_upstream_request E r NGX_ERROR
      else
        let b = u_buffer (r_u r); n = b_last b - b_pos b in
        if n \<noteq> 0 then
          let r = map_u (\<lambda>u. u\<lparr>u_buffer := b\<lparr>b_last := b_pos b\<rparr>,
                              u_response_length := u_response_length u + int n\<rparr>) r
          in case input_filter r n of (rc, r) \<Rightarrow>
               if rc = NGX_ERROR then finalize_upstream_request E r NGX_ERROR
               else if u_length (r_u r) = 0 then finalize_upstream_request E r NGX_DONE
               else read_body_handler E r
        else
          let r = emit Flush_client (map_u (\<lambda>u. u\<lparr>u_buffer := buf_rewind b\<rparr>) r) in
          if \<not> r_flush_ok r then finalize_upstream_request E r NGX_ERROR
          else read_body_handler E r)"

section \<open>The head of the reply\<close>

text \<open>\<open>ngx_http_ratelimit_test_connect\<close>, in the branch without kqueue.\<close>

definition test_connect :: "conn \<Rightarrow> int" where
  "test_connect c = (if c_so_error c then NGX_ERROR else NGX_OK)"

text \<open>The loop of \<open>ngx_http_ratelimit_read_header_handler\<close>: \<open>Inl\<close> is a \<open>return\<close> from
  inside the loop, \<open>Inr\<close> its exit with the code of \<open>process_header\<close>.\<close>

function header_loop :: "env \<Rightarrow> request \<Rightarrow> request + (int \<times> request)" where
  "header_loop E r =
     (case u_conn (r_u r) of None \<Rightarrow> Inl r | Some c \<Rightarrow>
      let b = u_buffer (r_u r) in
      case recv c (b_end b - b_last b) of (n, bs, c) \<Rightarrow>
        let r = received c bs r in
        if n = NGX_AGAIN
        then Inl (if \<not> c_rd_event_ok c
                  then finalize_upstream_request E r HTTP_INTERNAL_SERVER_ERROR else r)
        else
          let r = (if n = 0 then emit (Log_error ''redis prematurely closed connection'') r else r) in
          if n = NGX_ERROR \<or> n = 0
          then Inl (finalize_upstream_request E r HTTP_BAD_GATEWAY)
          else
            let r = map_u (\<lambda>u. u\<lparr>u_bytes_received := u_bytes_received u + n,
                    u_buffer := (u_buffer u)\<lparr>b_last := b_last (u_buffer u) + nat n\<rparr>\<rparr>) r
            in case process_header E r of (rc, r) \<Rightarrow>
                 if rc = NGX_AGAIN then
                   if b_last (u_buffer (r_u r)) = b_end (u_buffer (r_u r))
                   then Inl (finalize_upstream_request E
                          (emit (Log_error ''redis sent too big header'') r) HTTP_INTERNAL_SERVER_ERROR)
                   else header_loop E r
                 else Inr (rc, r))"
  by pat_completeness auto
termination
proof (relation "measure (\<lambda>(E, r). recv_size r)", goal_cases)
  case 1
  show ?case by simp
next
  case (2 E r c b n y bs c' r1 r2 r3 rc r4)
  from 2(3,4) have "recv c (b_end b - b_last b) = (n, bs, c')" by simp
  then have dec: "sum_list (map ev_size (c_recv c')) < sum_list (map ev_size (c_recv c))"
    by (rule recv_decreases) (use 2(6,8) in simp_all)
  have "u_conn (r_u r3) = Some c'" by (simp add: 2(5,7,9) received_def emit_def)
  then have "recv_events r3 = c_recv c'" by (simp add: recv_events_def)
  moreover have "recv_events r4 = recv_events r3"
    using process_header_frame [OF 2(10) [symmetric]] recv_events_head_frame by blast
  ultimately have "recv_size r4 \<le> sum_list (map ev_size (c_recv c'))"
    by (auto simp: recv_size_def recv_events_def split: option.splits)
  with dec 2(1) show ?case by (simp add: recv_size_def)
qed

declare header_loop.simps [simp del]

text \<open>The buffer of the reply is allocated on the first read event.\<close>

definition alloc_buffer :: "env \<Rightarrow> request \<Rightarrow> bool \<times> request" where
  "alloc_buffer E r =
     (if \<not> u_start_null (r_u r) then (True, r)
      else let (ok, r) = alloc r in
        if \<not> ok then (False, r)
        else (True, map_u (\<lambda>u. u\<lparr>u_start_null := False,
                u_buffer := \<lparr>b_mem = replicate (unat (lc_buffer_size (e_lc E))) (CHR 0x00),
                             b_pos = 0, b_last = 0, b_last_buf = False\<rparr>\<rparr>) r))"

text \<open>\<open>ngx_http_ratelimit_read_header_handler\<close>.\<close>

definition read_header_handler :: "env \<Rightarrow> request \<Rightarrow> request" where
  "read_header_handler E r =
     (case u_conn (r_u r) of None \<Rightarrow> r | Some c \<Rightarrow>
      if c_rd_timedout c then finalize_upstream_request E r HTTP_GATEWAY_TIME_OUT
      else if \<not> u_request_sent (r_u r) \<and> test_connect c \<noteq> NGX_OK
      then finalize_upstream_request E r HTTP_SERVICE_UNAVAILABLE
      else case alloc_buffer E r of (ok, r) \<Rightarrow>
        if \<not> ok then finalize_upstream_request E r HTTP_INTERNAL_SERVER_ERROR
        else case header_loop E r of
            Inl r \<Rightarrow> r
          | Inr (rc, r) \<Rightarrow>
              if rc = UPSTREAM_INVALID_HEADER
              then finalize_upstream_request E r HTTP_INTERNAL_SERVER_ERROR
              else if rc = HTTP_BAD_GATEWAY
              then finalize_upstream_request E r HTTP_BAD_GATEWAY
              else if rc = NGX_ERROR
              then finalize_upstream_request E r HTTP_INTERNAL_SERVER_ERROR
              else process_response E
                     (map_u (\<lambda>u. u\<lparr>u_header_time := r_msec r - u_start_time u, u_length := -1\<rparr>) r))"

section \<open>The write handler of the fallback\<close>

text \<open>\<open>ngx_http_ratelimit_send_eval_handler\<close>.\<close>

definition send_eval_handler :: "env \<Rightarrow> request \<Rightarrow> request" where
  "send_eval_handler E r =
     (case u_conn (r_u r) of None \<Rightarrow> r | Some c \<Rightarrow>
      if c_wr_timedout c
      then finalize_upstream_request E (emit (Log_error ''redis timed out'') r) HTTP_GATEWAY_TIME_OUT
      else case send_eval r of (rc, r) \<Rightarrow>
        if rc \<noteq> NGX_OK then finalize_upstream_request E r rc else r)"

end
