(* ===== verification/RL_Phase.thy ===== *)
theory RL_Phase
  imports RL_Upstream
begin

text \<open>
  The PREACCESS handler, \<open>ngx_http_ratelimit_handler\<close> in
  \<open>src/ngx_http_ratelimit_handler.c\<close>: the start of a rate check, and the decision when the
  phase engine re-enters it after the upstream round trip.
\<close>

text \<open>What nginx's upstream module does for the handler: the configured upstreams, the creation of
  \<open>r->upstream\<close> (\<open>None\<close> is a failure), \<open>ngx_http_upstream_init\<close>, which builds
  the request with \<open>u->create_request\<close> and connects, and nginx's own write handler, which the
  module leaves installed for the connect and the first send.\<close>

record upstream_module =
  um_upstreams :: "srv_conf list"
  um_create :: "request \<Rightarrow> request option"
  um_init :: "env \<Rightarrow> request \<Rightarrow> request"
  um_write :: "env \<Rightarrow> request \<Rightarrow> request"

section \<open>The decision on re-entry\<close>

definition transport_status :: "u64 \<Rightarrow> bool" where
  "transport_status st \<longleftrightarrow>
     st = ST_BAD_GATEWAY \<or> st = ST_SERVICE_UNAVAILABLE \<or> st = ST_GATEWAY_TIME_OUT"

text \<open>The part of the handler that maps \<open>r->upstream->state->status\<close> to its result.\<close>

definition decide :: "loc_conf \<Rightarrow> request \<Rightarrow> int \<times> request" where
  "decide lc r =
     (let st = u_status (r_u r) in
      if st = ST_TOO_MANY_REQUESTS
      then (sint (lc_status_code lc), emit (Log_error ''rate limit exceeded'') r)
      else if st = ST_OK then (NGX_DECLINED, r)
      else if ST_BAD_REQUEST \<le> st then
        if lc_on_error lc = ON_ERROR_ALLOW \<and> transport_status st
        then (NGX_DECLINED, emit (Log_error ''redis unavailable, failing open'') r)
        else (sint st, r)
      else (HTTP_INTERNAL_SERVER_ERROR, emit (Log_error ''rate limit unexpected status'') r))"

section \<open>The start of a rate check\<close>

text \<open>The key with its prefix, \<open>"<prefix>_<key>"\<close>; \<open>Inl\<close> is an early return.\<close>

definition make_key :: "loc_conf \<Rightarrow> request \<Rightarrow> ngx_str \<Rightarrow> (int \<times> request) + (ngx_str \<times> request)" where
  "make_key lc r k =
     (if lc_prefix lc = [] then Inr (k, r)
      else let (ok, r) = alloc r in
        if \<not> ok then Inl (HTTP_INTERNAL_SERVER_ERROR, r)
        else Inr (lc_prefix lc @ ''_'' @ k, r))"

text \<open>The run-time target: it is looked up in the configured upstreams and stored in the location
  configuration, which all requests share.\<close>

definition resolve_target ::
    "upstream_module \<Rightarrow> env \<Rightarrow> request \<Rightarrow> (int \<times> loc_conf \<times> request) + loc_conf" where
  "resolve_target N E r =
     (let lc = e_lc E in
      case lc_complex_target lc of None \<Rightarrow> Inr lc
      | Some cv \<Rightarrow>
          (case p_complex_value (e_p E) cv of
             None \<Rightarrow> Inl (NGX_ERROR, lc, r)
           | Some target \<Rightarrow>
               if target = []
               then Inl (HTTP_INTERNAL_SERVER_ERROR, lc, emit (Log_error ''empty target'') r)
               else
                 let lc = lc\<lparr>lc_upstream := upstream_add (um_upstreams N) target 0\<rparr> in
                 if lc_upstream lc = None
                 then Inl (HTTP_INTERNAL_SERVER_ERROR, lc, emit (Log_error ''upstream not found'') r)
                 else Inr lc))"

text \<open>The branch of the handler for a request without a context and without the marker.\<close>

definition start_check ::
    "upstream_module \<Rightarrow> env \<Rightarrow> zone \<Rightarrow> request \<Rightarrow> int \<times> loc_conf \<times> request" where
  "start_check N E z r =
     (let lc = e_lc E; (ok, r) = alloc r in
      if \<not> ok then (NGX_ERROR, lc, r)
      else
        let ctx = zero_ctx\<lparr>retry_after := -1\<rparr> in
        case p_complex_value (e_p E) (z_key z) of
          None \<Rightarrow> (NGX_ERROR, lc, r)
        | Some k \<Rightarrow>
            if k = [] then (NGX_DECLINED, lc, r)
            else case make_key lc r k of
                Inl (rc, r) \<Rightarrow> (rc, lc, r)
              | Inr (k, r) \<Rightarrow>
                  if MAX_KEY_LEN < length k
                  then (HTTP_INTERNAL_SERVER_ERROR, lc, emit (Log_error ''key is too long'') r)
                  else
                    let ctx = ctx\<lparr>key := k\<rparr>; r = r\<lparr>r_done := True\<rparr> in
                    case build_prelude E r ctx of (rc, ctx, r) \<Rightarrow>
                      if rc \<noteq> NGX_OK then (HTTP_INTERNAL_SERVER_ERROR, lc, r)
                      else case um_create N r of
                          None \<Rightarrow> (HTTP_INTERNAL_SERVER_ERROR, lc, r)
                        | Some r \<Rightarrow>
                            (case resolve_target N E r of
                               Inl res \<Rightarrow> res
                             | Inr lc \<Rightarrow>
                                 let r = r\<lparr>r_ctx := Some ctx, r_main_count := r_main_count r + 1\<rparr>;
                                     r = um_init N (E\<lparr>e_lc := lc\<rparr>) (emit Upstream_init r)
                                 in (NGX_AGAIN, lc, map_u (\<lambda>u. u\<lparr>u_read_handler := RH_header\<rparr>) r)))"

section \<open>The handler\<close>

definition handler :: "upstream_module \<Rightarrow> env \<Rightarrow> request \<Rightarrow> int \<times> loc_conf \<times> request" where
  "handler N E r =
     (let lc = e_lc E in
      case lc_zone lc of None \<Rightarrow> (NGX_DECLINED, lc, r) | Some z \<Rightarrow>
      if lc_complex_target lc = None \<and> lc_upstream lc = None
      then (HTTP_INTERNAL_SERVER_ERROR, lc, emit (Log_error ''zone has no ratelimit_pass target'') r)
      else case r_ctx r of
          Some ctx \<Rightarrow>
            if \<not> finalized ctx then (NGX_AGAIN, lc, r)
            else (case decide lc r of (rc, r) \<Rightarrow> (rc, lc, r))
        | None \<Rightarrow>
            if r_done r then (NGX_DECLINED, lc, r) else start_check N E z r)"

end
