(* ===== verification/RL_Final.thy ===== *)
theory RL_Final imports RL_Phase begin

text \<open>
  The life of one upstream request, from the moment \<open>ngx_http_upstream_init\<close> has been called to the
  re-entry of the phase engine: what \<open>finalize_upstream_request\<close> leaves behind, the invariant that
  every event handler keeps, and the shape of a concluded request.
\<close>

section \<open>What finalisation leaves behind\<close>

text \<open>The status a return code is surfaced as.\<close>

definition surfaced :: "int \<Rightarrow> u64 \<Rightarrow> u64" where
  "surfaced rc st = (if rc = NGX_OK \<or> rc = NGX_DONE then st
     else if rc = NGX_ERROR then of_int HTTP_INTERNAL_SERVER_ERROR else of_int rc)"

text \<open>Effects that do not touch the client or the phase engine.\<close>

definition peer_effect :: "effect \<Rightarrow> bool" where
  "peer_effect e \<longleftrightarrow> (case e of Resolve_done \<Rightarrow> True | Free_peer \<Rightarrow> True | Destroy_conn_pool \<Rightarrow> True
     | Close_connection \<Rightarrow> True | Sent s \<Rightarrow> True | Log_error s \<Rightarrow> True | Flush_client \<Rightarrow> True | _ \<Rightarrow> False)"

lemma account_fields [simp]:
  "u_status (account t u) = u_status u" "u_cleanup (account t u) = u_cleanup u"
  "u_conn (account t u) = u_conn u" "u_peer_free (account t u) = u_peer_free u"
  "u_peer_sockaddr (account t u) = u_peer_sockaddr u"
  by (auto simp: account_def Let_def split: option.split prod.split)

lemma release_peer_fields [simp]:
  "r_ctx (release_peer P r) = r_ctx r" "r_headers_out (release_peer P r) = r_headers_out r"
  "r_done (release_peer P r) = r_done r" "r_pool (release_peer P r) = r_pool r"
  "u_status (r_u (release_peer P r)) = u_status (r_u r)"
  "u_cleanup (r_u (release_peer P r)) = u_cleanup (r_u r)"
  by (auto simp: release_peer_def emit_def Let_def)

lemma close_peer_fields [simp]:
  "r_ctx (close_peer r) = r_ctx r" "r_headers_out (close_peer r) = r_headers_out r"
  "r_done (close_peer r) = r_done r" "r_pool (close_peer r) = r_pool r"
  "u_status (r_u (close_peer r)) = u_status (r_u r)"
  "u_cleanup (r_u (close_peer r)) = u_cleanup (r_u r)" "u_conn (r_u (close_peer r)) = None"
  by (auto simp: close_peer_def emit_def Let_def split: option.split)

lemma release_peer_adds: "adds peer_effect r (release_peer P r)"
  by (auto simp: release_peer_def adds_def emit_def Let_def peer_effect_def)

lemma close_peer_adds: "adds peer_effect r (close_peer r)"
  by (auto simp: close_peer_def adds_def emit_def Let_def peer_effect_def split: option.split)

text \<open>The state in which the finalisation callback is called, and what follows it.\<close>

definition detached :: "request \<Rightarrow> request" where
  "detached r = (let r = map_u (\<lambda>u. u\<lparr>u_cleanup := False\<rparr>) r;
      r = (if u_resolving (r_u r) then map_u (\<lambda>u. u\<lparr>u_resolving := False\<rparr>) (emit Resolve_done r) else r)
    in map_u (account (r_msec r)) r)"

definition torn_down :: "env \<Rightarrow> request \<Rightarrow> request" where
  "torn_down E r = (close_peer (release_peer (e_p E) (finalize_request E (detached r))))
     \<lparr>r_read_event_handler := RR_block_reading, r_write_event_handler := RW_run_phases\<rparr>"

lemma finalize_upstream_request_eq:
  "u_cleanup (r_u r) \<Longrightarrow> rc \<noteq> NGX_DECLINED \<Longrightarrow> finalize_upstream_request E r rc =
     (if rc \<noteq> NGX_OK \<and> rc \<noteq> NGX_DONE
      then emit Run_phases (emit (Finalize_request NGX_DONE)
             (map_u (\<lambda>u. u\<lparr>u_status := if rc = NGX_ERROR then of_int HTTP_INTERNAL_SERVER_ERROR
                                        else of_int rc\<rparr>) (torn_down E r)))
      else emit Run_phases (emit (Finalize_request rc) (torn_down E r)))"
  by (simp add: finalize_upstream_request_def torn_down_def detached_def Let_def)

lemma detached_fields [simp]:
  "r_ctx (detached r) = r_ctx r" "r_headers_out (detached r) = r_headers_out r"
  "r_done (detached r) = r_done r" "r_pool (detached r) = r_pool r" "r_allocs (detached r) = r_allocs r"
  "u_status (r_u (detached r)) = u_status (r_u r)" "u_cleanup (r_u (detached r)) = False"
  by (simp_all add: detached_def Let_def emit_def)

lemma detached_adds: "adds peer_effect r (detached r)"
  by (auto simp: detached_def adds_def emit_def Let_def peer_effect_def)

lemma torn_down_fields:
  assumes "r_ctx r = Some ctx"
  shows "r_ctx (torn_down E r) = Some (ctx\<lparr>auth_buf := None, finalized := True\<rparr>)"
    "r_done (torn_down E r) = r_done r" "u_status (r_u (torn_down E r)) = u_status (r_u r)"
    "\<not> u_cleanup (r_u (torn_down E r))" "u_conn (r_u (torn_down E r)) = None"
    "r_headers_out (torn_down E r) = r_headers_out (finalize_request E (detached r))"
    "r_pool (torn_down E r) = r_pool (finalize_request E (detached r))"
    "adds peer_effect r (torn_down E r)"
proof -
  have c: "r_ctx (detached r) = Some ctx" using assms by simp
  note f = finalize_request_fields [OF c, of E]
  show "r_ctx (torn_down E r) = Some (ctx\<lparr>auth_buf := None, finalized := True\<rparr>)"
    "r_done (torn_down E r) = r_done r" "u_status (r_u (torn_down E r)) = u_status (r_u r)"
    "\<not> u_cleanup (r_u (torn_down E r))" "u_conn (r_u (torn_down E r)) = None"
    "r_headers_out (torn_down E r) = r_headers_out (finalize_request E (detached r))"
    "r_pool (torn_down E r) = r_pool (finalize_request E (detached r))"
    by (simp_all add: torn_down_def f(1-4))
  have "adds peer_effect r (finalize_request E (detached r))"
    using detached_adds [of r] by (simp add: adds_def f(3))
  then have "adds peer_effect r (close_peer (release_peer (e_p E) (finalize_request E (detached r))))"
    using release_peer_adds close_peer_adds adds_trans by metis
  then show "adds peer_effect r (torn_down E r)" by (simp add: torn_down_def adds_def)
qed

definition outcome_rc :: "int \<Rightarrow> int" where
  "outcome_rc rc = (if rc = NGX_OK then NGX_OK else NGX_DONE)"

lemma finalize_upstream_fields:
  assumes "r_ctx r = Some ctx" "u_cleanup (r_u r)" "rc \<noteq> NGX_DECLINED"
    and r': "r' = finalize_upstream_request E r rc"
  shows "r_ctx r' = Some (ctx\<lparr>auth_buf := None, finalized := True\<rparr>)" "r_done r' = r_done r"
    "u_status (r_u r') = surfaced rc (u_status (r_u r))" "\<not> u_cleanup (r_u r')" "u_conn (r_u r') = None"
    "r_headers_out r' = r_headers_out (finalize_request E (detached r))"
    "r_pool r' = r_pool (finalize_request E (detached r))"
    "\<exists>es. r_effects r' = r_effects r @ es @ [Finalize_request (outcome_rc rc), Run_phases] \<and> (\<forall>e \<in> set es. peer_effect e)"
  using torn_down_fields [OF assms(1), of E]
  unfolding r' finalize_upstream_request_eq [OF assms(2,3)] surfaced_def outcome_rc_def adds_def
  by (auto simp: emit_def)

section \<open>Undecided, waiting, concluded\<close>

text \<open>No verdict yet: since the round trip of \<open>r0\<close> began there have been effects on the peer, the
  log and the flush only, in particular neither the release of the request nor a re-entry of the
  phase engine.\<close>

definition only_peer :: "effect list \<Rightarrow> effect list \<Rightarrow> bool" where
  "only_peer es es' \<longleftrightarrow> (\<exists>xs. es' = es @ xs \<and> (\<forall>e \<in> set xs. peer_effect e))"

definition undecided :: "request \<Rightarrow> request \<Rightarrow> bool" where
  "undecided r0 r \<longleftrightarrow> only_peer (r_effects r0) (r_effects r)"

definition verdict_status :: "u64 \<Rightarrow> bool" where
  "verdict_status st \<longleftrightarrow> st = ST_OK \<or> st = ST_TOO_MANY_REQUESTS"

definition error_status :: "u64 \<Rightarrow> bool" where
  "error_status st \<longleftrightarrow> st = of_int HTTP_INTERNAL_SERVER_ERROR \<or> transport_status st"

text \<open>A request whose round trip is under way; \<open>r0\<close> is the request when it began.\<close>

definition under_way :: "request \<Rightarrow> bool \<Rightarrow> request \<Rightarrow> bool" where
  "under_way r0 complete r \<longleftrightarrow>
     (\<exists>ctx. r_ctx r = Some ctx \<and> \<not> finalized ctx \<and> reply_parsed ctx = complete)
     \<and> u_cleanup (r_u r) \<and> u_conn (r_u r) \<noteq> None \<and> \<not> u_out_bufs (r_u r) \<and> \<not> u_busy_bufs (r_u r)
     \<and> r_headers_out r = r_headers_out r0 \<and> r_done r \<and> undecided r0 r"

text \<open>Waiting for more of the reply: its head has not been accepted yet, or it has and the status is
  one of the two verdicts.  A complete reply sets \<open>u->length\<close> to 0.\<close>

definition in_body :: "request \<Rightarrow> bool" where
  "in_body r \<longleftrightarrow> u_length (r_u r) = -1 \<and> verdict_status (u_status (r_u r))"

definition waiting :: "request \<Rightarrow> request \<Rightarrow> bool" where
  "waiting r0 r \<longleftrightarrow> under_way r0 False r
     \<and> (u_read_handler (r_u r) = RH_header \<or> u_read_handler (r_u r) = RH_body \<and> in_body r)"

definition complete :: "request \<Rightarrow> request \<Rightarrow> bool" where
  "complete r0 r \<longleftrightarrow> under_way r0 True r \<and> u_length (r_u r) = 0 \<and> verdict_status (u_status (r_u r))"

text \<open>A concluded request: the phase engine has been re-entered exactly once, after the extra
  reference was released without a response; the status is a verdict if the reply was parsed to its
  end, an error otherwise.\<close>

definition concluded :: "env \<Rightarrow> request \<Rightarrow> request \<Rightarrow> bool" where
  "concluded E r0 r \<longleftrightarrow>
     (\<exists>ctx. r_ctx r = Some ctx \<and> finalized ctx \<and> auth_buf ctx = None
        \<and> (if reply_parsed ctx then verdict_status (u_status (r_u r)) else error_status (u_status (r_u r)))
        \<and> (r_headers_out r = r_headers_out r0 \<or> reply_parsed ctx
             \<and> (u_status (r_u r) = ST_TOO_MANY_REQUESTS \<or> lc_enable_headers (e_lc E) \<noteq> 0)))
     \<and> \<not> u_cleanup (r_u r) \<and> u_conn (r_u r) = None \<and> r_done r
     \<and> (\<exists>es. r_effects r = r_effects r0 @ es @ [Finalize_request NGX_DONE, Run_phases]
           \<and> (\<forall>e \<in> set es. peer_effect e))"

lemma undecided_adds: "undecided r0 r \<longleftrightarrow> adds peer_effect r0 r"
  by (simp add: undecided_def only_peer_def adds_def)

lemma adds_undecided: "adds Q r r' \<Longrightarrow> (\<And>e. Q e \<Longrightarrow> peer_effect e) \<Longrightarrow> undecided r0 r \<Longrightarrow> undecided r0 r'"
  unfolding undecided_adds by (blast intro: adds_trans adds_mono)

lemma only_peer_snoc [simp]: "peer_effect e \<Longrightarrow> only_peer es es' \<Longrightarrow> only_peer es (es' @ [e])"
  by (auto simp: only_peer_def)

lemma safe_log_peer: "safe_log e \<Longrightarrow> peer_effect e"
  and is_sent_peer: "is_sent e \<Longrightarrow> peer_effect e"
  by (auto simp: peer_effect_def safe_log_def is_sent_def split: effect.splits)

lemma undecided_emit: "peer_effect e \<Longrightarrow> undecided r0 r \<Longrightarrow> undecided r0 (emit e r)"
  by (simp add: undecided_adds adds_emit)

lemma peer_effect_simps [simp]:
  "peer_effect (Log_error s)" "peer_effect Flush_client" "peer_effect (Sent s)"
  by (simp_all add: peer_effect_def)

text \<open>Finalising with an error before the reply is complete, and with \<open>NGX_DONE\<close> after.\<close>

lemma concluded_shape:
  assumes "r_ctx r = Some ctx" "u_cleanup (r_u r)" "undecided r0 r" "r_done r" "rc \<noteq> NGX_DECLINED" "rc \<noteq> NGX_OK"
  shows "r_ctx (finalize_upstream_request E r rc) = Some (ctx\<lparr>auth_buf := None, finalized := True\<rparr>)"
    "u_status (r_u (finalize_upstream_request E r rc)) = surfaced rc (u_status (r_u r))"
    "\<not> u_cleanup (r_u (finalize_upstream_request E r rc))" "u_conn (r_u (finalize_upstream_request E r rc)) = None"
    "r_done (finalize_upstream_request E r rc)"
    "\<exists>es. r_effects (finalize_upstream_request E r rc) =
         r_effects r0 @ es @ [Finalize_request NGX_DONE, Run_phases] \<and> (\<forall>e \<in> set es. peer_effect e)"
    "r_headers_out (finalize_upstream_request E r rc) =
       (if headers_due (e_lc E) ctx (r_u (detached r))
        then r_headers_out (emit_headers (e_p E) (detached r) ctx) else r_headers_out r)"
proof -
  note f = finalize_upstream_fields [OF assms(1,2,5) refl, of E]
  show "r_ctx (finalize_upstream_request E r rc) = Some (ctx\<lparr>auth_buf := None, finalized := True\<rparr>)"
    "u_status (r_u (finalize_upstream_request E r rc)) = surfaced rc (u_status (r_u r))"
    "\<not> u_cleanup (r_u (finalize_upstream_request E r rc))" "u_conn (r_u (finalize_upstream_request E r rc)) = None"
    "r_done (finalize_upstream_request E r rc)"
    using f assms(4) by simp_all
  have c: "r_ctx (detached r) = Some ctx" using assms(1) by simp
  show "r_headers_out (finalize_upstream_request E r rc) =
       (if headers_due (e_lc E) ctx (r_u (detached r))
        then r_headers_out (emit_headers (e_p E) (detached r) ctx) else r_headers_out r)"
    by (simp add: f(6) finalize_request_fields(8) [OF c])
  obtain es0 where es0: "r_effects r = r_effects r0 @ es0" "\<forall>e \<in> set es0. peer_effect e"
    using assms(3) by (auto simp: undecided_adds adds_def)
  from f(8) obtain es where es: "r_effects (finalize_upstream_request E r rc) =
      r_effects r @ es @ [Finalize_request NGX_DONE, Run_phases]" "\<forall>e \<in> set es. peer_effect e"
    using assms(6) by (auto simp: outcome_rc_def)
  show "\<exists>es. r_effects (finalize_upstream_request E r rc) =
         r_effects r0 @ es @ [Finalize_request NGX_DONE, Run_phases] \<and> (\<forall>e \<in> set es. peer_effect e)"
    by (rule exI [of _ "es0 @ es"]) (use es0 es in auto)
qed

definition failure_rc :: "int \<Rightarrow> bool" where
  "failure_rc rc \<longleftrightarrow> rc = NGX_ERROR \<or> rc = HTTP_INTERNAL_SERVER_ERROR \<or> rc = HTTP_BAD_GATEWAY
     \<or> rc = HTTP_SERVICE_UNAVAILABLE \<or> rc = HTTP_GATEWAY_TIME_OUT"

lemma failure_concludes:
  assumes "under_way r0 False r" and "failure_rc rc"
  shows "concluded E r0 (finalize_upstream_request E r rc)"
proof -
  obtain ctx where c: "r_ctx r = Some ctx" "\<not> reply_parsed ctx"
    using assms(1) by (auto simp: under_way_def)
  have rc: "rc \<noteq> NGX_DECLINED" "rc \<noteq> NGX_OK" and st: "error_status (surfaced rc (u_status (r_u r)))"
    using assms(2) by (auto simp: failure_rc_def surfaced_def error_status_def transport_status_def)
  have "u_cleanup (r_u r)" "undecided r0 r" "r_done r" "r_headers_out r = r_headers_out r0"
    using assms(1) by (auto simp: under_way_def)
  with concluded_shape [OF c(1) _ _ _ rc, of r0 E] c st show ?thesis
    by (simp add: concluded_def headers_due_def)
qed

lemma complete_concludes:
  assumes "complete r0 r"
  shows "concluded E r0 (finalize_upstream_request E r NGX_DONE)"
proof -
  obtain ctx where c: "r_ctx r = Some ctx" "reply_parsed ctx"
    using assms by (auto simp: complete_def under_way_def)
  have r: "u_cleanup (r_u r)" "undecided r0 r" "r_done r" "r_headers_out r = r_headers_out r0" "verdict_status (u_status (r_u r))"
    using assms by (auto simp: complete_def under_way_def)
  with concluded_shape [OF c(1), of r0 NGX_DONE E] c show ?thesis
    by (auto simp: concluded_def headers_due_def surfaced_def verdict_status_def)
qed

section \<open>The handlers keep it\<close>

lemma under_way_upd:
  assumes "under_way r0 k r" and "r_ctx r' = r_ctx r" "r_headers_out r' = r_headers_out r" "r_done r' = r_done r"
    "undecided r0 r'" "u_cleanup (r_u r')" "u_conn (r_u r') \<noteq> None" "\<not> u_out_bufs (r_u r')" "\<not> u_busy_bufs (r_u r')"
  shows "under_way r0 k r'"
  using assms by (simp add: under_way_def)

lemma in_body_filter:
  assumes "under_way r0 False r" "in_body r" "input_filter r n = (rc, r')"
  shows "rc = NGX_OK \<and> complete r0 r' \<or> rc = NGX_AGAIN \<and> under_way r0 False r' \<and> in_body r'
      \<or> rc = NGX_ERROR \<and> under_way r0 False r'"
    and "u_read_handler (r_u r') = u_read_handler (r_u r)"
proof -
  obtain ctx where ctx: "r_ctx r = Some ctx" "\<not> finalized ctx" "\<not> reply_parsed ctx"
    using assms(1) by (auto simp: under_way_def)
  obtain c' u' where pr: "process_reply ctx (r_u r) n = (rc, c', u')"
    and r': "r' = r\<lparr>r_ctx := Some c', r_u := u'\<rparr>"
    using assms(3) ctx(1) by (auto simp: input_filter_def split: prod.splits)
  note f = process_reply_frame [OF pr]
  note u = u_restD [OF f(3)]
  have fin: "\<not> finalized c'"
    using arg_cong [OF f(2), of finalized] ctx(2) by (simp add: c_rest_def)
  have st: "verdict_status (u_status u')"
    using process_reply_status [OF pr] assms(2) by (auto simp: in_body_def verdict_status_def)
  have uw: "under_way r0 (rc = NGX_OK) r'"
    using assms(1) ctx(3) f(4) fin u by (auto simp: under_way_def r' undecided_def)
  show "rc = NGX_OK \<and> complete r0 r' \<or> rc = NGX_AGAIN \<and> under_way r0 False r' \<and> in_body r'
      \<or> rc = NGX_ERROR \<and> under_way r0 False r'"
    using f(1,6) uw st assms(2) by (auto simp: complete_def in_body_def r')
  show "u_read_handler (r_u r') = u_read_handler (r_u r)" using u by (simp add: r')
qed

text \<open>What the body loop may be entered with, and what it leaves.\<close>

definition body_entry :: "request \<Rightarrow> bool \<Rightarrow> request \<Rightarrow> bool" where
  "body_entry r0 do_write r \<longleftrightarrow>
     under_way r0 False r \<and> in_body r \<and> u_read_handler (r_u r) = RH_body \<or> complete r0 r \<and> do_write"

lemma waiting_body: "body_entry r0 False r \<Longrightarrow> waiting r0 r"
  by (auto simp: body_entry_def waiting_def)

lemma body_loop_keeps:
  "body_entry r0 do_write r \<Longrightarrow>
   (case body_loop E r do_write of Returned r' \<Rightarrow> concluded E r0 r' | Broke r' \<Rightarrow> body_entry r0 False r')"
proof (induction "recv_size r" arbitrary: r do_write rule: less_induct)
  case less
  obtain c where c: "u_conn (r_u r) = Some c"
    using less.prems by (auto simp: body_entry_def complete_def under_way_def)
  have bufs: "\<not> (u_out_bufs (r_u r) \<or> u_busy_bufs (r_u r))"
    using less.prems by (auto simp: body_entry_def complete_def under_way_def)
  show ?case
  proof (cases "complete r0 r \<and> do_write")
    case True
    then have "u_length (r_u r) = 0" by (simp add: complete_def)
    with True c bufs complete_concludes show ?thesis
      by (subst body_loop.simps) simp
  next
    case False
    with less.prems have uw: "under_way r0 False r" "in_body r" "u_read_handler (r_u r) = RH_body"
      by (auto simp: body_entry_def)
    then have len: "u_length (r_u r) \<noteq> 0" by (simp add: in_body_def)
    let ?fail = "\<lambda>r. finalize_upstream_request E r HTTP_BAD_GATEWAY"
    show ?thesis
    proof (cases "do_write \<and> (c_rd_eof c \<or> c_rd_error c)")
      case True
      have "under_way r0 False (emit (Log_error s) r)" for s
        using uw(1) by (auto simp: under_way_def emit_def undecided_def)
      with True uw len c bufs show ?thesis
        by (subst body_loop.simps) (auto simp: failure_concludes failure_rc_def)
    next
      case False
      define r1 where "r1 = (if do_write then map_u (\<lambda>u. u\<lparr>u_buffer := buf_rewind (u_buffer u)\<rparr>) r else r)"
      have uw1: "under_way r0 False r1" "in_body r1" "u_read_handler (r_u r1) = RH_body"
        using uw by (auto simp: r1_def under_way_def in_body_def undecided_def)
      let ?sz = "b_end (u_buffer (r_u r1)) - b_last (u_buffer (r_u r1))"
      show ?thesis
      proof (cases "?sz \<noteq> 0 \<and> c_rd_ready c")
        case no: False
        with False c bufs len uw1 show ?thesis
          by (subst body_loop.simps) (auto simp: r1_def [symmetric] body_entry_def Let_def)
      next
        case rd: True
        obtain n bs c' where rcv: "recv c ?sz = (n, bs, c')" by (cases "recv c ?sz")
        define r2 where "r2 = received c' bs r1"
        have uw2: "under_way r0 False r2" "in_body r2" "u_read_handler (r_u r2) = RH_body"
          using uw1 by (auto simp: r2_def received_def under_way_def in_body_def undecided_def)
        define r3 where "r3 = map_u (\<lambda>u. u\<lparr>u_bytes_received := u_bytes_received u + n,
            u_response_length := u_response_length u + n\<rparr>) r2"
        have uw3: "under_way r0 False r3" "in_body r3" "u_read_handler (r_u r3) = RH_body"
          using uw2 by (auto simp: r3_def under_way_def in_body_def undecided_def)
        have eq: "body_loop E r do_write =
            (if n = NGX_AGAIN then Broke r2
             else if 0 < n then
               (case input_filter r3 (nat n) of (rc, r4) \<Rightarrow>
                  if rc = NGX_ERROR then Returned (finalize_upstream_request E r4 NGX_ERROR)
                  else body_loop E r4 True)
             else body_loop E r2 True)"
          using c bufs len False rd rcv unfolding r3_def r2_def r1_def
          by (subst body_loop.simps) (auto simp: Let_def)
        have dec: "recv_size r4 < recv_size r" if "n \<noteq> NGX_AGAIN" "u_conn (r_u r4) = Some c'" for r4
          using recv_decreases [OF rcv that(1)] rd c that(2) by (simp add: recv_size_def)
        show ?thesis
        proof (cases "0 < n")
          case True
          obtain rc r4 where fl: "input_filter r3 (nat n) = (rc, r4)" by fastforce
          have "u_conn (r_u r4) = Some c'"
            using u_restD(1) [OF input_filter_u_rest [OF fl]] by (simp add: r3_def r2_def received_def)
          note IH = less.hyps [OF dec [OF _ this], of True]
          show ?thesis
            using in_body_filter [OF uw3(1,2) fl] uw3(3) IH True
            by (auto simp: eq fl body_entry_def failure_concludes failure_rc_def)
        next
          case False
          have "u_conn (r_u r2) = Some c'" by (simp add: r2_def received_def)
          note IH = less.hyps [OF dec [OF _ this], of True]
          show ?thesis using IH uw2 False by (auto simp: eq body_entry_def)
        qed
      qed
    qed
  qed
qed

lemma under_way_conn:
  "under_way r0 k r \<Longrightarrow> under_way r0 k (map_u (\<lambda>u. u\<lparr>u_conn := map_option f (u_conn u)\<rparr>) r)"
  by (auto simp: under_way_def undecided_def)

lemma under_way_emit [simp]: "peer_effect e \<Longrightarrow> under_way r0 k r \<Longrightarrow> under_way r0 k (emit e r)"
  by (simp add: under_way_def undecided_emit) (simp add: emit_def)

lemma body_entry_timer: "body_entry r0 False r \<Longrightarrow> body_entry r0 False (set_rd_timer on r)"
  by (auto simp: body_entry_def set_rd_timer_def in_body_def intro: under_way_conn)

lemma process_redis_response_keeps:
  assumes "body_entry r0 False r"
  shows "concluded E r0 (process_redis_response E r do_write) \<or> body_entry r0 False (process_redis_response E r do_write)"
proof -
  have entry: "body_entry r0 (do_write \<or> u_length (r_u r) = 0) r"
    using assms by (auto simp: body_entry_def)
  note keeps = body_loop_keeps [OF entry, of E]
  show ?thesis
  proof (cases "body_loop E r (do_write \<or> u_length (r_u r) = 0)")
    case (Returned r')
    with keeps show ?thesis by (simp add: process_redis_response_def)
  next
    case (Broke r')
    with keeps have b: "body_entry r0 False r'" by simp
    then have "concluded E r0 (finalize_upstream_request E r' NGX_ERROR)"
      by (auto simp: body_entry_def failure_concludes failure_rc_def)
    with b body_entry_timer [OF b] Broke show ?thesis
      by (simp add: process_redis_response_def split: option.split)
  qed
qed

lemma read_body_handler_keeps:
  assumes "body_entry r0 False r"
  shows "concluded E r0 (read_body_handler E r) \<or> body_entry r0 False (read_body_handler E r)"
proof -
  have "under_way r0 False r" using assms by (simp add: body_entry_def)
  then have "concluded E r0 (finalize_upstream_request E (emit (Log_error s) r) HTTP_GATEWAY_TIME_OUT)" for s
    by (simp add: failure_concludes failure_rc_def)
  with assms process_redis_response_keeps [OF assms] show ?thesis
    by (auto simp: read_body_handler_def split: option.splits)
qed

lemma process_response_keeps:
  assumes "under_way r0 False r" "in_body r"
  shows "concluded E r0 (process_response E r) \<or> body_entry r0 False (process_response E r)"
proof -
  let ?r1 = "map_u (\<lambda>u. u\<lparr>u_read_handler := RH_body, u_write_handler := WH_dummy\<rparr>) r"
  have 1: "under_way r0 False ?r1" "in_body ?r1" "u_read_handler (r_u ?r1) = RH_body"
    using assms by (auto simp: under_way_def in_body_def undecided_def)
  let ?b = "u_buffer (r_u ?r1)" let ?n = "b_last ?b - b_pos ?b"
  have err: "under_way r0 False r \<Longrightarrow> concluded E r0 (finalize_upstream_request E r NGX_ERROR)" for r
    by (simp add: failure_concludes failure_rc_def)
  show ?thesis
  proof (cases "\<not> r_tcp_nodelay_ok r")
    case True
    then show ?thesis using err [OF 1(1)] by (simp add: process_response_def Let_def filter_init_def)
  next
    case nodelay: False
    show ?thesis
    proof (cases "?n = 0")
      case True
      let ?r2 = "emit Flush_client (map_u (\<lambda>u. u\<lparr>u_buffer := buf_rewind ?b\<rparr>) ?r1)"
      have 2: "under_way r0 False ?r2" "body_entry r0 False ?r2"
        using 1 by (auto simp: body_entry_def in_body_def emit_def under_way_def undecided_def)
      show ?thesis
        using True nodelay err [OF 2(1)] read_body_handler_keeps [OF 2(2), of E]
        by (simp add: process_response_def Let_def filter_init_def)
    next
      case False
      let ?r2 = "map_u (\<lambda>u. u\<lparr>u_buffer := ?b\<lparr>b_last := b_pos ?b\<rparr>,
                              u_response_length := u_response_length u + int ?n\<rparr>) ?r1"
      have 2: "under_way r0 False ?r2" "in_body ?r2" "u_read_handler (r_u ?r2) = RH_body"
        using 1 by (auto simp: under_way_def in_body_def undecided_def)
      obtain rc r3 where fl: "input_filter ?r2 ?n = (rc, r3)" by fastforce
      have eq: "process_response E r =
          (if rc = NGX_ERROR then finalize_upstream_request E r3 NGX_ERROR
           else if u_length (r_u r3) = 0 then finalize_upstream_request E r3 NGX_DONE
           else read_body_handler E r3)"
        using False nodelay fl by (simp add: process_response_def Let_def filter_init_def)
      note f = in_body_filter [OF 2(1,2) fl]
      have "body_entry r0 False r3" if "under_way r0 False r3" "in_body r3"
        using that f(2) 2(3) by (simp add: body_entry_def)
      with f(1) read_body_handler_keeps [of r0 r3 E] err [of r3] complete_concludes [of r0 r3 E]
      show ?thesis
        unfolding eq by (auto simp: complete_def in_body_def)
    qed
  qed
qed

lemma under_way_head:
  assumes "under_way r0 k r" "head_frame r r'" "adds (\<lambda>e. safe_log e \<or> is_sent e) r r'"
  shows "under_way r0 k r'"
proof -
  have hs: "head_side (r_u r') = head_side (r_u r)" and ci: "ctx_ident r' = ctx_ident r"
    and h: "r_headers_out r' = r_headers_out r" "r_done r' = r_done r"
    using assms(2) by (auto simp: head_frame_def)
  note s = head_sideD [OF hs]
  have "\<exists>ctx. r_ctx r' = Some ctx \<and> \<not> finalized ctx \<and> reply_parsed ctx = k"
    using ci assms(1) by (auto simp: ctx_ident_def under_way_def)
  moreover have "undecided r0 r'"
    using adds_undecided [OF assms(3)] assms(1) safe_log_peer is_sent_peer by (auto simp: under_way_def)
  ultimately show ?thesis
    using s h assms(1) by (auto simp: under_way_def)
qed

lemma process_header_keeps:
  assumes "under_way r0 k r" "process_header E r = (rc, r')"
  shows "under_way r0 k r' \<and> u_read_handler (r_u r') = u_read_handler (r_u r)"
proof -
  have hf: "head_frame r r'" using process_header_frame [OF assms(2)] by blast
  have "adds (\<lambda>e. safe_log e \<or> is_sent e) r r'"
    using process_header_adds [OF assms(2)] adds_mono [of safe_log r r' "\<lambda>e. safe_log e \<or> is_sent e"] by blast
  then have "under_way r0 k r'" by (rule under_way_head [OF assms(1) hf])
  moreover have "head_side (r_u r') = head_side (r_u r)" using hf by (simp add: head_frame_def)
  ultimately show ?thesis using head_sideD(8) by blast
qed

lemma header_loop_keeps:
  assumes "under_way r0 False r" "u_read_handler (r_u r) = RH_header"
  shows "case header_loop E r of
      Inl r' \<Rightarrow> concluded E r0 r' \<or> under_way r0 False r' \<and> u_read_handler (r_u r') = RH_header
    | Inr (rc, r') \<Rightarrow> under_way r0 False r' \<and> (rc = NGX_OK \<longrightarrow> u_status (r_u r') = ST_OK)
        \<and> rc \<in> {NGX_OK, NGX_ERROR, HTTP_BAD_GATEWAY, UPSTREAM_INVALID_HEADER}"
  using assms
proof (induction "recv_size r" arbitrary: r rule: less_induct)
  case less
  obtain c where c: "u_conn (r_u r) = Some c" using less.prems by (auto simp: under_way_def)
  let ?sz = "b_end (u_buffer (r_u r)) - b_last (u_buffer (r_u r))"
  obtain n bs c' where rcv: "recv c ?sz = (n, bs, c')" by (cases "recv c ?sz")
  define r1 where "r1 = received c' bs r"
  have 1: "under_way r0 False r1" "u_read_handler (r_u r1) = RH_header"
    using less.prems by (auto simp: r1_def received_def under_way_def undecided_def)
  have fin: "concluded E r0 (finalize_upstream_request E r rc)" if "under_way r0 False r" "failure_rc rc" for r rc
    using that by (rule failure_concludes)
  define r2 where "r2 = (if n = 0 then emit (Log_error ''redis prematurely closed connection'') r1 else r1)"
  have 2: "under_way r0 False r2" "u_read_handler (r_u r2) = RH_header"
    using 1 by (auto simp: r2_def) (simp add: emit_def)
  define r3 where "r3 = map_u (\<lambda>u. u\<lparr>u_bytes_received := u_bytes_received u + n,
                    u_buffer := (u_buffer u)\<lparr>b_last := b_last (u_buffer u) + nat n\<rparr>\<rparr>) r2"
  have 3: "under_way r0 False r3" "u_read_handler (r_u r3) = RH_header"
    using 2 by (auto simp: r3_def under_way_def undecided_def)
  obtain rc r4 where ph: "process_header E r3 = (rc, r4)" by fastforce
  note 4 = process_header_keeps [OF 3(1) ph]
  have eq: "header_loop E r =
      (if n = NGX_AGAIN
       then Inl (if \<not> c_rd_event_ok c'
                 then finalize_upstream_request E r1 HTTP_INTERNAL_SERVER_ERROR else r1)
       else if n = NGX_ERROR \<or> n = 0 then Inl (finalize_upstream_request E r2 HTTP_BAD_GATEWAY)
       else if rc = NGX_AGAIN then
              if b_last (u_buffer (r_u r4)) = b_end (u_buffer (r_u r4))
              then Inl (finalize_upstream_request E
                     (emit (Log_error ''redis sent too big header'') r4) HTTP_INTERNAL_SERVER_ERROR)
              else header_loop E r4
       else Inr (rc, r4))"
  proof (cases "n = 0")
    case True
    then show ?thesis
      by (subst header_loop.simps) (simp add: c rcv r1_def [symmetric] r2_def Let_def)
  next
    case False
    then have "process_header E (map_u (\<lambda>u. u\<lparr>u_bytes_received := u_bytes_received u + n,
        u_buffer := (u_buffer u)\<lparr>b_last := b_last (u_buffer u) + nat n\<rparr>\<rparr>) r1) = (rc, r4)"
      using ph by (simp add: r3_def r2_def)
    with False show ?thesis
      by (subst header_loop.simps) (simp add: c rcv r1_def [symmetric] r2_def Let_def)
  qed
  show ?case
  proof (cases "n = NGX_AGAIN \<or> n = NGX_ERROR \<or> n = 0")
    case True
    with 1 2 fin show ?thesis by (auto simp: eq failure_rc_def)
  next
    case n: False
    have "head_side (r_u r4) = head_side (r_u r3)"
      using process_header_frame [OF ph] by (simp add: head_frame_def)
    then have conn: "map_option c_recv (u_conn (r_u r4)) = map_option c_recv (u_conn (r_u r3))"
      by (rule head_sideD)
    have "u_conn (r_u r3) = Some c'" by (simp add: r3_def r2_def r1_def received_def emit_def)
    with conn have "recv_size r4 < recv_size r"
      using recv_decreases [OF rcv] n c by (auto simp: recv_size_def)
    from less.hyps [OF this] 4 3(2) have IH: "case header_loop E r4 of
      Inl r' \<Rightarrow> concluded E r0 r' \<or> under_way r0 False r' \<and> u_read_handler (r_u r') = RH_header
    | Inr (rc, r') \<Rightarrow> under_way r0 False r' \<and> (rc = NGX_OK \<longrightarrow> u_status (r_u r') = ST_OK)
        \<and> rc \<in> {NGX_OK, NGX_ERROR, HTTP_BAD_GATEWAY, UPSTREAM_INVALID_HEADER}" by simp
    have "concluded E r0 (finalize_upstream_request E
        (emit (Log_error ''redis sent too big header'') r4) HTTP_INTERNAL_SERVER_ERROR)"
      using 4 by (intro fin) (simp_all add: failure_rc_def)
    with IH 4 n process_header_frame [OF ph] show ?thesis by (auto simp: eq)
  qed
qed

lemma alloc_buffer_keeps:
  assumes "under_way r0 k r" "alloc_buffer E r = (ok, r')"
  shows "under_way r0 k r' \<and> u_read_handler (r_u r') = u_read_handler (r_u r)"
  using assms
  by (auto simp: alloc_buffer_def alloc_def under_way_def undecided_def Let_def split: if_splits list.splits)

lemma read_header_handler_keeps:
  assumes "under_way r0 False r" "u_read_handler (r_u r) = RH_header"
  shows "concluded E r0 (read_header_handler E r) \<or> waiting r0 (read_header_handler E r)"
proof -
  obtain c where c: "u_conn (r_u r) = Some c" using assms by (auto simp: under_way_def)
  have fin: "concluded E r0 (finalize_upstream_request E r rc)" if "under_way r0 False r" "failure_rc rc" for r rc
    using that by (rule failure_concludes)
  obtain ok r1 where ab: "alloc_buffer E r = (ok, r1)" by fastforce
  note 1 = alloc_buffer_keeps [OF assms(1) ab]
  show ?thesis
  proof (cases "c_rd_timedout c \<or> (\<not> u_request_sent (r_u r) \<and> test_connect c \<noteq> NGX_OK) \<or> \<not> ok")
    case True
    with c ab fin [OF assms(1)] fin [OF conjunct1 [OF 1]] show ?thesis
      by (auto simp: read_header_handler_def failure_rc_def)
  next
    case False
    then have eq: "read_header_handler E r = (case header_loop E r1 of
            Inl r \<Rightarrow> r
          | Inr (rc, r) \<Rightarrow>
              if rc = UPSTREAM_INVALID_HEADER
              then finalize_upstream_request E r HTTP_INTERNAL_SERVER_ERROR
              else if rc = HTTP_BAD_GATEWAY
              then finalize_upstream_request E r HTTP_BAD_GATEWAY
              else if rc = NGX_ERROR
              then finalize_upstream_request E r HTTP_INTERNAL_SERVER_ERROR
              else process_response E
                     (map_u (\<lambda>u. u\<lparr>u_header_time := r_msec r - u_start_time u, u_length := -1\<rparr>) r))"
      using c ab by (auto simp: read_header_handler_def)
    have hl: "case header_loop E r1 of
      Inl r' \<Rightarrow> concluded E r0 r' \<or> under_way r0 False r' \<and> u_read_handler (r_u r') = RH_header
    | Inr (rc, r') \<Rightarrow> under_way r0 False r' \<and> (rc = NGX_OK \<longrightarrow> u_status (r_u r') = ST_OK)
        \<and> rc \<in> {NGX_OK, NGX_ERROR, HTTP_BAD_GATEWAY, UPSTREAM_INVALID_HEADER}"
      using 1 assms(2) by (intro header_loop_keeps) simp_all
    show ?thesis
    proof (cases "header_loop E r1")
      case (Inl r')
      with hl show ?thesis by (auto simp: eq waiting_def)
    next
      case (Inr p)
      obtain rc r' where p: "p = (rc, r')" by (cases p)
      have uw: "under_way r0 False r'" using hl Inr p by simp
      let ?r2 = "map_u (\<lambda>u. u\<lparr>u_header_time := r_msec r' - u_start_time u, u_length := -1\<rparr>) r'"
      have "rc = NGX_OK \<Longrightarrow> under_way r0 False ?r2 \<and> in_body ?r2"
        using hl Inr p by (auto simp: under_way_def undecided_def in_body_def verdict_status_def)
      then have ok: "rc = NGX_OK \<Longrightarrow> concluded E r0 (process_response E ?r2) \<or> waiting r0 (process_response E ?r2)"
        using process_response_keeps [of r0 ?r2 E] waiting_body by blast
      have "rc = NGX_OK \<or> rc = NGX_ERROR \<or> rc = HTTP_BAD_GATEWAY \<or> rc = UPSTREAM_INVALID_HEADER"
        using hl Inr p by simp
      with ok Inr p fin [OF uw] show ?thesis by (auto simp: eq failure_rc_def)
    qed
  qed
qed

end
