(* ===== verification/RL_System.thy ===== *)
theory RL_System
  imports RL_Final
begin

text \<open>
  The module under its environment: the events nginx delivers while the round trip to Redis is under
  way, in any order and with any state of the connection, and the re-entry of the PREACCESS handler
  after it.  The properties that span the components are here.
\<close>

section \<open>The contract of an event handler\<close>

text \<open>Every handler the module installs is called in a waiting request and either leaves it waiting
  or concludes it; nothing else can happen in between.\<close>

definition reentries :: "request \<Rightarrow> nat" where
  "reentries r = length (filter (\<lambda>e. e = Run_phases) (r_effects r))"

lemma peer_not_reentry: "\<forall>e \<in> set es. peer_effect e \<Longrightarrow> filter (\<lambda>e. e = Run_phases) es = []"
  by (auto simp: filter_empty_conv peer_effect_def)

lemma waiting_reentries: "waiting r0 r \<Longrightarrow> reentries r = reentries r0"
  by (auto simp: waiting_def under_way_def undecided_def only_peer_def reentries_def peer_not_reentry)

lemma concluded_reentries: "concluded E r0 r \<Longrightarrow> reentries r = Suc (reentries r0)"
  by (auto simp: concluded_def reentries_def peer_not_reentry)

locale event_handler =
  fixes h :: "env \<Rightarrow> request \<Rightarrow> request" and installed :: "request \<Rightarrow> bool"
  assumes keeps: "waiting r0 r \<Longrightarrow> installed r \<Longrightarrow> waiting r0 (h E r) \<or> concluded E r0 (h E r)"
begin

text \<open>Hence a call re-enters the phase engine once if it concludes the request, and never
  otherwise.\<close>

lemma reenters_once:
  assumes "waiting r0 r" "installed r"
  shows "reentries (h E r) = reentries r0 + (if concluded E r0 (h E r) then 1 else 0)"
proof (cases "concluded E r0 (h E r)")
  case True
  then show ?thesis by (simp add: concluded_reentries)
next
  case False
  with keeps [OF assms, of E] waiting_reentries show ?thesis by auto
qed

end

lemma send_eval_handler_keeps:
  assumes "waiting r0 r"
  shows "waiting r0 (send_eval_handler E r) \<or> concluded E r0 (send_eval_handler E r)"
proof -
  have uw: "under_way r0 False r" using assms by (simp add: waiting_def)
  have fin: "under_way r0 False r \<Longrightarrow> failure_rc rc \<Longrightarrow> concluded E r0 (finalize_upstream_request E r rc)" for r rc
    by (rule failure_concludes)
  obtain c where c: "u_conn (r_u r) = Some c" using uw by (auto simp: under_way_def)
  show ?thesis
  proof (cases "c_wr_timedout c")
    case True
    have "concluded E r0 (finalize_upstream_request E (emit (Log_error s) r) HTTP_GATEWAY_TIME_OUT)" for s
      using uw by (intro fin under_way_emit) (simp_all add: failure_rc_def)
    with True c show ?thesis by (simp add: send_eval_handler_def)
  next
    case False
    obtain rc r' where se: "send_eval r = (rc, r')" by fastforce
    have hf: "head_frame r r'" and st: "u_status (r_u r') = u_status (r_u r)"
      and rc: "rc \<in> {NGX_OK, NGX_ERROR, HTTP_BAD_GATEWAY}"
      using head_frame_send_eval [OF se] by blast+
    have "adds (\<lambda>e. safe_log e \<or> is_sent e) r r'"
      using send_eval_adds [OF se] by (blast intro: adds_mono)
    then have uw': "under_way r0 False r'" by (rule under_way_head [OF uw hf])
    have side: "head_side (r_u r') = head_side (r_u r)" using hf by (simp add: head_frame_def)
    have "waiting r0 r'"
      using assms uw' st head_sideD(2,8) [OF side] by (simp add: waiting_def in_body_def)
    with c False se rc fin [OF uw', of rc] show ?thesis
      by (auto simp: send_eval_handler_def failure_rc_def)
  qed
qed

interpretation rhead: event_handler read_header_handler "\<lambda>r. u_read_handler (r_u r) = RH_header"
  by unfold_locales (use read_header_handler_keeps in \<open>auto simp: waiting_def\<close>)

interpretation rbody: event_handler read_body_handler "\<lambda>r. u_read_handler (r_u r) = RH_body"
  by unfold_locales
    (use read_body_handler_keeps waiting_body in \<open>fastforce simp: waiting_def body_entry_def\<close>)

interpretation weval: event_handler send_eval_handler "\<lambda>r. u_write_handler (r_u r) = WH_send_eval"
  by unfold_locales (rule send_eval_handler_keeps)

interpretation wdummy: event_handler "\<lambda>E. dummy_handler" "\<lambda>r. u_write_handler (r_u r) = WH_dummy"
proof
  fix r0 r E
  assume "waiting r0 r"
  moreover have "r_u (emit e r) = r_u r" for e by (simp add: emit_def)
  ultimately show "waiting r0 (dummy_handler r) \<or> concluded E r0 (dummy_handler r)"
    by (simp add: dummy_handler_def waiting_def in_body_def under_way_emit)
qed

section \<open>Events\<close>

text \<open>What nginx changes before it delivers an event: the connection (new data in the socket, an
  error, a timeout), whether the request has been sent, the outcomes of allocations to come and the
  clock.\<close>

definition arrive :: "conn \<Rightarrow> bool \<Rightarrow> bool list \<Rightarrow> u64 \<Rightarrow> request \<Rightarrow> request" where
  "arrive c sent allocs now r =
     r\<lparr>r_u := (r_u r)\<lparr>u_conn := Some c, u_request_sent := sent\<rparr>, r_allocs := allocs, r_msec := now\<rparr>"

text \<open>nginx's own write handler (\<open>ngx_http_upstream_send_request_handler\<close>, and once the request is out
  its handler that does nothing) is installed from the connect until the module takes the write side
  over.  It either goes on with the round trip, having moved
  bytes from the request buffers to the socket, or it gives up (the connect or send timer fired, the
  connect or a send failed, the event could not be registered) with
  \<open>ngx_http_upstream_finalize_request\<close>: that detaches the peer, calls the finalisation callback of the
  module, closes the connection and finalizes the client request with the error status.  There is no
  next peer to try, since \<open>next_upstream\<close> is 0 and the module is the only client of the hook.\<close>

definition same_memory :: "request \<Rightarrow> request \<Rightarrow> bool" where
  "same_memory r r' \<longleftrightarrow> map b_mem (r_pool r') = map b_mem (r_pool r)"

definition stock_keeps :: "request \<Rightarrow> request \<Rightarrow> bool" where
  "stock_keeps r r' \<longleftrightarrow> (\<exists>c sent pool es.
     r' = r\<lparr>r_u := (r_u r)\<lparr>u_conn := Some c, u_request_sent := sent\<rparr>, r_pool := pool,
            r_effects := r_effects r @ es\<rparr>
     \<and> same_memory r r' \<and> (\<forall>e \<in> set es. peer_effect e))"

definition stock_ends :: "env \<Rightarrow> request \<Rightarrow> int \<Rightarrow> request \<Rightarrow> bool" where
  "stock_ends E r rc r' \<longleftrightarrow> (\<exists>r1 es.
     r_ctx r1 = r_ctx r \<and> r_done r1 = r_done r \<and> r_headers_out r1 = r_headers_out r
     \<and> same_memory r r1 \<and> adds peer_effect r r1
     \<and> r_ctx r' = r_ctx (finalize_request E r1) \<and> r_done r' = r_done r1
     \<and> r_headers_out r' = r_headers_out (finalize_request E r1) \<and> r_pool r' = r_pool (finalize_request E r1)
     \<and> u_conn (r_u r') = None \<and> \<not> u_cleanup (r_u r') \<and> u_request_bufs (r_u r') = u_request_bufs (r_u r)
     \<and> r_effects r' = r_effects (finalize_request E r1) @ es @ [Finalize_request rc]
     \<and> (\<forall>e \<in> set es. peer_effect e))"

definition client_error :: "int \<Rightarrow> bool" where
  "client_error rc \<longleftrightarrow> 400 \<le> rc \<and> rc \<le> 599"

definition write_contract :: "upstream_module \<Rightarrow> bool" where
  "write_contract N \<longleftrightarrow> (\<forall>E r. u_conn (r_u r) \<noteq> None \<longrightarrow> u_write_handler (r_u r) = WH_stock \<longrightarrow>
     stock_keeps r (um_write N E r) \<or> (\<exists>rc. client_error rc \<and> stock_ends E r rc (um_write N E r)))"

text \<open>One event on the connection to Redis: the handler that is installed runs.\<close>

inductive event_step :: "upstream_module \<Rightarrow> env \<Rightarrow> request \<Rightarrow> request \<Rightarrow> bool" for N E where
  read_header: "u_conn (r_u r) \<noteq> None \<Longrightarrow> u_read_handler (r_u r) = RH_header \<Longrightarrow>
    event_step N E r (read_header_handler E (arrive c sent as now r))"
| read_body: "u_conn (r_u r) \<noteq> None \<Longrightarrow> u_read_handler (r_u r) = RH_body \<Longrightarrow>
    event_step N E r (read_body_handler E (arrive c sent as now r))"
| write_eval: "u_conn (r_u r) \<noteq> None \<Longrightarrow> u_write_handler (r_u r) = WH_send_eval \<Longrightarrow>
    event_step N E r (send_eval_handler E (arrive c sent as now r))"
| write_dummy: "u_conn (r_u r) \<noteq> None \<Longrightarrow> u_write_handler (r_u r) = WH_dummy \<Longrightarrow>
    event_step N E r (dummy_handler (arrive c sent as now r))"
| write_stock: "u_conn (r_u r) \<noteq> None \<Longrightarrow> u_write_handler (r_u r) = WH_stock \<Longrightarrow>
    event_step N E r (um_write N E (arrive c sent as now r))"

inductive_cases event_stepE: "event_step N E r r'"

lemma arrive_fields [simp]:
  "u_read_handler (r_u (arrive c sent as now r)) = u_read_handler (r_u r)"
  "u_write_handler (r_u (arrive c sent as now r)) = u_write_handler (r_u r)"
  "r_ctx (arrive c sent as now r) = r_ctx r"
  by (simp_all add: arrive_def)

lemma waiting_arrive: "waiting r0 r \<Longrightarrow> waiting r0 (arrive c sent as now r)"
  by (auto simp: waiting_def under_way_def in_body_def arrive_def undecided_def)

text \<open>A round trip that nginx's write handler has ended: the client request is finalized with an error
  status, once and without a re-entry of the phase engine, and nothing of a reply was used.\<close>

definition given_up :: "request \<Rightarrow> request \<Rightarrow> bool" where
  "given_up r0 r \<longleftrightarrow>
     (\<exists>ctx. r_ctx r = Some ctx \<and> finalized ctx \<and> \<not> reply_parsed ctx \<and> auth_buf ctx = None)
     \<and> r_headers_out r = r_headers_out r0 \<and> \<not> u_cleanup (r_u r) \<and> u_conn (r_u r) = None \<and> r_done r
     \<and> (\<exists>rc es. client_error rc \<and> r_effects r = r_effects r0 @ es @ [Finalize_request rc]
           \<and> (\<forall>e \<in> set es. peer_effect e))"

lemma given_up_reentries: "given_up r0 r \<Longrightarrow> reentries r = reentries r0"
  by (auto simp: given_up_def reentries_def peer_not_reentry)

lemma waiting_stock_keeps:
  assumes "waiting r0 r" "stock_keeps r r'"
  shows "waiting r0 r'"
proof -
  from assms(2) obtain c sent pool es where
    r': "r' = r\<lparr>r_u := (r_u r)\<lparr>u_conn := Some c, u_request_sent := sent\<rparr>, r_pool := pool,
            r_effects := r_effects r @ es\<rparr>" and es: "\<forall>e \<in> set es. peer_effect e"
    by (auto simp: stock_keeps_def)
  have "adds peer_effect r r'" using es by (auto simp: r' adds_def)
  then have "undecided r0 r'"
    using assms(1) by (auto simp: waiting_def under_way_def undecided_adds intro: adds_trans)
  then show ?thesis
    using assms(1) by (simp add: waiting_def under_way_def in_body_def r')
qed

lemma waiting_stock_ends:
  assumes "waiting r0 r" "stock_ends E r rc r'" "client_error rc"
  shows "given_up r0 r'"
proof -
  obtain ctx where ctx: "r_ctx r = Some ctx" "\<not> reply_parsed ctx" and r: "r_headers_out r = r_headers_out r0"
    "r_done r" "adds peer_effect r0 r"
    using assms(1) by (auto simp: waiting_def under_way_def undecided_adds)
  from assms(2) obtain r1 es where r1: "r_ctx r1 = Some ctx" "r_done r1" "r_headers_out r1 = r_headers_out r0"
      "adds peer_effect r r1" and es: "\<forall>e \<in> set es. peer_effect e"
    and r': "r_ctx r' = r_ctx (finalize_request E r1)" "r_done r'"
      "r_headers_out r' = r_headers_out (finalize_request E r1)" "u_conn (r_u r') = None" "\<not> u_cleanup (r_u r')"
      "r_effects r' = r_effects (finalize_request E r1) @ es @ [Finalize_request rc]"
    using ctx(1) r by (auto simp: stock_ends_def)
  note f = finalize_request_fields [OF r1(1), of E]
  obtain es0 where es0: "r_effects r1 = r_effects r0 @ es0" "\<forall>e \<in> set es0. peer_effect e"
    using adds_trans [OF r(3) r1(4)] by (auto simp: adds_def)
  have "r_effects r' = r_effects r0 @ (es0 @ es) @ [Finalize_request rc]"
    "\<forall>e \<in> set (es0 @ es). peer_effect e"
    using es0 es by (auto simp: r'(6) f(3))
  then show ?thesis
    using r'(1-5) f(1,8) r1(3) ctx(2) assms(3) unfolding given_up_def headers_due_def by auto
qed

lemma waiting_step:
  assumes "event_step N E r r'" "waiting r0 r" "write_contract N"
  shows "waiting r0 r' \<or> concluded E r0 r' \<or> given_up r0 r'"
  using assms(1)
proof cases
  case (read_header c sent as now)
  with rhead.keeps [OF waiting_arrive [OF assms(2)], of c sent as now E] show ?thesis by auto
next
  case (read_body c sent as now)
  with rbody.keeps [OF waiting_arrive [OF assms(2)], of c sent as now E] show ?thesis by auto
next
  case (write_eval c sent as now)
  with weval.keeps [OF waiting_arrive [OF assms(2)], of c sent as now E] show ?thesis by auto
next
  case (write_dummy c sent as now)
  with wdummy.keeps [OF waiting_arrive [OF assms(2)], of c sent as now E] show ?thesis by auto
next
  case (write_stock c sent as now)
  let ?r = "arrive c sent as now r"
  have "u_conn (r_u ?r) \<noteq> None" by (simp add: arrive_def)
  then have "stock_keeps ?r r' \<or> (\<exists>rc. client_error rc \<and> stock_ends E ?r rc r')"
    using write_stock(3) assms(3) unfolding write_contract_def write_stock(1) by simp
  then show ?thesis
    using waiting_arrive [OF assms(2)] waiting_stock_keeps waiting_stock_ends by blast
qed

lemma concluded_no_step: "concluded E r0 r \<Longrightarrow> \<not> event_step N E r r'"
  and given_up_no_step: "given_up r0 r \<Longrightarrow> \<not> event_step N E r r'"
  by (auto simp: concluded_def given_up_def elim!: event_stepE)

lemma waiting_run:
  assumes "(event_step N E)\<^sup>*\<^sup>* r r'" "waiting r0 r" "write_contract N"
  shows "waiting r0 r' \<or> concluded E r0 r' \<or> given_up r0 r'"
  using assms(1)
proof (induction rule: rtranclp_induct)
  case (step r1 r2)
  then show ?case using waiting_step [OF step.hyps(2) _ assms(3)] concluded_no_step given_up_no_step by blast
qed (use assms(2) in simp)

section \<open>Re-entry of the phase engine\<close>

text \<open>A location the handler is active in: a zone, a target, and a \<open>ratelimit_status\<close> in the range the
  configuration accepts.\<close>

definition active :: "loc_conf \<Rightarrow> bool" where
  "active lc \<longleftrightarrow> lc_zone lc \<noteq> None \<and> (lc_complex_target lc \<noteq> None \<or> lc_upstream lc \<noteq> None)
     \<and> 400 \<le> sint (lc_status_code lc) \<and> sint (lc_status_code lc) \<le> 599"

text \<open>What the client's request deserves, given the verdict of the round trip.\<close>

definition deserved :: "loc_conf \<Rightarrow> bool \<Rightarrow> u64 \<Rightarrow> int" where
  "deserved lc parsed st =
     (if parsed then (if st = ST_OK then NGX_DECLINED else sint (lc_status_code lc))
      else if lc_on_error lc = ON_ERROR_ALLOW \<and> transport_status st then NGX_DECLINED
      else sint st)"

lemma handler_active:
  "active (e_lc E) \<Longrightarrow> r_ctx r = Some ctx \<Longrightarrow> handler N E r =
     (if \<not> finalized ctx then (NGX_AGAIN, e_lc E, r)
      else (case decide (e_lc E) r of (rc, r) \<Rightarrow> (rc, e_lc E, r)))"
  by (auto simp: active_def handler_def Let_def)

lemma handler_concluded:
  assumes "concluded E r0 r" "active (e_lc E)" "r_ctx r = Some ctx"
  shows "fst (handler N E r) = deserved (e_lc E) (reply_parsed ctx) (u_status (r_u r))"
  using assms(1) assms(3)
  by (auto simp: handler_active [OF assms(2,3)] concluded_def deserved_def decide_def transport_status_def
      verdict_status_def error_status_def split: if_splits)

text \<open>C1: The limiter fails closed.  From a request whose round trip is under way, after any sequence of
  events on the connection (data split anywhere, errors, timeouts, short writes, failing
  allocations, in any order, and the connect and send failures nginx's own write handler meets), one
  of three things holds.  The request still waits, and re-entering the handler says so.  Or the module
  has concluded it, and re-entering the handler gives the result that is due: the request goes on
  (\<open>NGX_DECLINED\<close>) exactly when the reply was parsed to its end with status 0, or when it was not, the
  failure is one of the transport failures and \<open>ratelimit_on_error allow\<close> is set; a complete reply
  with status 1 gives the configured status, every other failure its own error status.  Or nginx's
  write handler has given up, and the client request is finalized with an error status, with no
  re-entry of the phase engine and no part of a reply used.\<close>

theorem fail_closed:
  assumes "write_contract N" "waiting r0 r" "(event_step N E)\<^sup>*\<^sup>* r r'" "active (e_lc E)"
  shows "waiting r0 r' \<and> fst (handler N E r') = NGX_AGAIN
    \<or> concluded E r0 r' \<and> (\<exists>parsed st. map_option reply_parsed (r_ctx r') = Some parsed \<and> u_status (r_u r') = st
        \<and> (if parsed then st \<in> {200, 429} else st \<in> {500, 502, 503, 504})
        \<and> fst (handler N E r') =
           (if parsed then (if st = 200 then NGX_DECLINED else sint (lc_status_code (e_lc E)))
            else if lc_on_error (e_lc E) = ON_ERROR_ALLOW \<and> st \<noteq> 500 then NGX_DECLINED else sint st))
    \<or> map_option reply_parsed (r_ctx r') = Some False \<and> u_conn (r_u r') = None \<and> reentries r' = reentries r0
        \<and> (\<exists>rc. 400 \<le> rc \<and> rc \<le> 599 \<and> last (r_effects r') = Finalize_request rc)"
  using waiting_run [OF assms(3,2,1)]
proof (elim disjE)
  assume w: "waiting r0 r'"
  then obtain ctx where "r_ctx r' = Some ctx" "\<not> finalized ctx" by (auto simp: waiting_def under_way_def)
  with w show ?thesis by (simp add: handler_active [OF assms(4)])
next
  assume c: "concluded E r0 r'"
  then obtain ctx where ctx: "r_ctx r' = Some ctx"
    and st: "if reply_parsed ctx then verdict_status (u_status (r_u r')) else error_status (u_status (r_u r'))"
    by (auto simp: concluded_def)
  have "fst (handler N E r') = deserved (e_lc E) (reply_parsed ctx) (u_status (r_u r'))"
    using c assms(4) ctx by (rule handler_concluded)
  with c ctx st show ?thesis
    by (auto simp: deserved_def verdict_status_def error_status_def transport_status_def split: if_splits)
next
  assume g: "given_up r0 r'"
  have "reentries r' = reentries r0" using g by (rule given_up_reentries)
  with g show ?thesis by (auto simp: given_up_def client_error_def)
qed

text \<open>A nginx whose write handler gives up when its timer fires, and events on the sample request: the read
  timeout, in a location that denies and in one that allows on error, and the write timeout.\<close>

definition sample_write :: "env \<Rightarrow> request \<Rightarrow> request" where
  "sample_write E r =
     (if map_option c_wr_timedout (u_conn (r_u r)) = Some True
      then emit (Finalize_request HTTP_GATEWAY_TIME_OUT)
             (map_u (\<lambda>u. u\<lparr>u_conn := None, u_cleanup := False\<rparr>) (finalize_request E r))
      else r)"

definition sample_module :: upstream_module where
  "sample_module = \<lparr>um_upstreams = [], um_create = Some, um_init = (\<lambda>E r. r), um_write = sample_write\<rparr>"

definition allowing_env :: env where
  "allowing_env = sample_env\<lparr>e_lc := sample_lc\<lparr>lc_on_error := ON_ERROR_ALLOW\<rparr>\<rparr>"

definition read_timeout :: "env \<Rightarrow> request \<Rightarrow> request" where
  "read_timeout E r = read_header_handler E (arrive (sample_conn\<lparr>c_rd_timedout := True\<rparr>) True [] 9 r)"

definition write_timeout :: "env \<Rightarrow> request \<Rightarrow> request" where
  "write_timeout E r = sample_write E (arrive (sample_conn\<lparr>c_wr_timedout := True\<rparr>) False [] 9 r)"

lemma finalize_request_u [simp]: "r_u (finalize_request E r) = r_u r"
  by (cases "r_ctx r") (simp_all add: finalize_request_fields, simp add: finalize_request_def)

lemma stock_keeps_refl: "u_conn (r_u r) \<noteq> None \<Longrightarrow> stock_keeps r r"
proof -
  assume "u_conn (r_u r) \<noteq> None"
  then have "r = r\<lparr>r_u := (r_u r)\<lparr>u_conn := Some (the (u_conn (r_u r))), u_request_sent := u_request_sent (r_u r)\<rparr>,
      r_pool := r_pool r, r_effects := r_effects r @ []\<rparr>" by simp
  then show ?thesis unfolding stock_keeps_def same_memory_def by (metis empty_iff empty_set)
qed

lemma finalize_request_done [simp]: "r_done (finalize_request E r) = r_done r"
  by (cases "r_ctx r") (simp_all add: finalize_request_fields, simp add: finalize_request_def)

lemma sample_write_contract: "um_write N = sample_write \<Longrightarrow> write_contract N"
proof -
  have "stock_ends E r HTTP_GATEWAY_TIME_OUT (emit (Finalize_request HTTP_GATEWAY_TIME_OUT)
      (map_u (\<lambda>u. u\<lparr>u_conn := None, u_cleanup := False\<rparr>) (finalize_request E r)))" for E r
    unfolding stock_ends_def
    by (rule exI [of _ r], rule exI [of _ "[]"]) (simp add: same_memory_def adds_refl emit_def)
  moreover have "client_error HTTP_GATEWAY_TIME_OUT" by (simp add: client_error_def)
  moreover assume "um_write N = sample_write"
  ultimately show ?thesis
    unfolding write_contract_def by (auto simp: sample_write_def stock_keeps_refl)
qed

lemma sample_module_contract: "write_contract sample_module"
  by (rule sample_write_contract) (simp add: sample_module_def)

lemma sample_waiting: "waiting sample_request sample_request"
  by (simp add: waiting_def under_way_def undecided_def only_peer_def sample_defs)

lemma read_timeout_run: "(event_step N E)\<^sup>*\<^sup>* sample_request (read_timeout E sample_request)"
  unfolding read_timeout_def
  by (rule r_into_rtranclp, rule event_step.read_header) (simp_all add: sample_defs)

lemma write_timeout_run: "(event_step sample_module E)\<^sup>*\<^sup>* sample_request (write_timeout E sample_request)"
proof -
  have "event_step sample_module E sample_request
      (um_write sample_module E (arrive (sample_conn\<lparr>c_wr_timedout := True\<rparr>) False [] 9 sample_request))"
    by (rule event_step.write_stock) (simp_all add: sample_defs)
  then show ?thesis by (simp add: sample_module_def write_timeout_def)
qed

lemma sample_active: "active (e_lc sample_env)" "active (e_lc allowing_env)"
  by (simp_all add: active_def sample_env_def allowing_env_def sample_lc_def)

lemma read_timeout_fields:
  "u_status (r_u (read_timeout E sample_request)) = 504"
  "map_option finalized (r_ctx (read_timeout E sample_request)) = Some True"
  "map_option reply_parsed (r_ctx (read_timeout E sample_request)) = Some False"
  "last (r_effects (read_timeout E sample_request)) = Run_phases"
proof -
  let ?r = "arrive (sample_conn\<lparr>c_rd_timedout := True\<rparr>) True [] 9 sample_request"
  have eq: "read_timeout E sample_request = finalize_upstream_request E ?r HTTP_GATEWAY_TIME_OUT"
    by (simp add: read_timeout_def read_header_handler_def arrive_def)
  have "r_ctx ?r = Some sample_ctx" "u_cleanup (r_u ?r)" by (simp_all add: arrive_def sample_defs)
  note f = finalize_upstream_fields [OF this _ refl, of HTTP_GATEWAY_TIME_OUT E]
  show "u_status (r_u (read_timeout E sample_request)) = 504"
    "map_option finalized (r_ctx (read_timeout E sample_request)) = Some True"
    "map_option reply_parsed (r_ctx (read_timeout E sample_request)) = Some False"
    "last (r_effects (read_timeout E sample_request)) = Run_phases"
    unfolding eq using f by (auto simp: surfaced_def sample_ctx_def zero_ctx_def)
qed

theorem fail_closed_witness:
  "fst (handler sample_module sample_env (read_timeout sample_env sample_request)) = 504
   \<and> fst (handler sample_module allowing_env (read_timeout allowing_env sample_request)) = NGX_DECLINED"
proof -
  have "fst (handler sample_module E (read_timeout E sample_request)) =
      (if lc_on_error (e_lc E) = ON_ERROR_ALLOW then NGX_DECLINED else 504)" if "active (e_lc E)" for E
  proof -
    note f = read_timeout_fields [of E]
    have "\<not> waiting sample_request (read_timeout E sample_request)"
      using f(2) by (auto simp: waiting_def under_way_def)
    moreover have "last (r_effects (read_timeout E sample_request)) \<noteq> Finalize_request rc" for rc
      using f(4) by simp
    ultimately show ?thesis
      using fail_closed [OF sample_module_contract sample_waiting read_timeout_run that]
      unfolding f(1,3) by auto
  qed
  from this [OF sample_active(1)] this [OF sample_active(2)] show ?thesis
    by (simp add: sample_env_def allowing_env_def sample_lc_def)
qed

text \<open>C2: The round trip is concluded at most once, and cleanly.  Whatever events arrive: as long as the
  request is not marked as finalized, the connection and the clean-up hook are in place and nothing has
  been released or re-entered.  When it is, either the module has concluded it, and the phase engine
  is re-entered exactly once more than before, after a release that emits no response
  (\<open>ngx_http_finalize_request(r, NGX_DONE)\<close>); or nginx's write handler has, and the client request is
  finalized exactly once, with an error status, and the phase engine not re-entered at all.  In both
  cases the connection is gone, the clean-up hook is cleared, the password buffer is released and no
  further event of the round trip can be delivered.\<close>

theorem concluded_exactly_once:
  assumes "write_contract N" "waiting r0 r" "(event_step N E)\<^sup>*\<^sup>* r r'"
  shows "if map_option finalized (r_ctx r') = Some True
    then (\<exists>es. (\<forall>e \<in> set es. peer_effect e)
          \<and> (r_effects r' = r_effects r0 @ es @ [Finalize_request NGX_DONE, Run_phases]
             \<or> (\<exists>rc. 400 \<le> rc \<and> rc \<le> 599 \<and> r_effects r' = r_effects r0 @ es @ [Finalize_request rc])))
      \<and> map_option auth_buf (r_ctx r') = Some None
      \<and> u_conn (r_u r') = None \<and> \<not> u_cleanup (r_u r') \<and> (\<forall>r''. \<not> event_step N E r' r'')
    else (\<exists>es. r_effects r' = r_effects r0 @ es \<and> (\<forall>e \<in> set es. peer_effect e))
      \<and> u_conn (r_u r') \<noteq> None \<and> u_cleanup (r_u r')"
  using waiting_run [OF assms(3,2,1)]
proof (elim disjE)
  assume w: "waiting r0 r'"
  then show ?thesis by (auto simp: waiting_def under_way_def undecided_def only_peer_def)
next
  assume c: "concluded E r0 r'"
  then have "map_option finalized (r_ctx r') = Some True" "map_option auth_buf (r_ctx r') = Some None"
    "u_conn (r_u r') = None" "\<not> u_cleanup (r_u r')"
    "\<exists>es. r_effects r' = r_effects r0 @ es @ [Finalize_request NGX_DONE, Run_phases] \<and> (\<forall>e \<in> set es. peer_effect e)"
    by (auto simp: concluded_def)
  with concluded_no_step [OF c, of N] show ?thesis by auto
next
  assume g: "given_up r0 r'"
  then have "map_option finalized (r_ctx r') = Some True" "map_option auth_buf (r_ctx r') = Some None"
    "u_conn (r_u r') = None" "\<not> u_cleanup (r_u r')"
    "\<exists>es rc. 400 \<le> rc \<and> rc \<le> 599 \<and> r_effects r' = r_effects r0 @ es @ [Finalize_request rc]
       \<and> (\<forall>e \<in> set es. peer_effect e)"
    by (auto simp: given_up_def client_error_def)
  with given_up_no_step [OF g, of N E] show ?thesis by auto
qed

lemma write_timeout_fields:
  "map_option finalized (r_ctx (write_timeout E sample_request)) = Some True"
  "map_option reply_parsed (r_ctx (write_timeout E sample_request)) = Some False"
  "r_effects (write_timeout E sample_request) = [Finalize_request HTTP_GATEWAY_TIME_OUT]"
proof -
  let ?r = "arrive (sample_conn\<lparr>c_wr_timedout := True\<rparr>) False [] 9 sample_request"
  have c: "r_ctx ?r = Some sample_ctx" "r_effects ?r = []" "u_conn (r_u ?r) = Some (sample_conn\<lparr>c_wr_timedout := True\<rparr>)"
    by (simp_all add: arrive_def sample_defs)
  note f = finalize_request_fields [OF c(1), of E]
  show "map_option finalized (r_ctx (write_timeout E sample_request)) = Some True"
    "map_option reply_parsed (r_ctx (write_timeout E sample_request)) = Some False"
    "r_effects (write_timeout E sample_request) = [Finalize_request HTTP_GATEWAY_TIME_OUT]"
    using f c by (simp_all add: write_timeout_def sample_write_def emit_def sample_ctx_def zero_ctx_def)
qed

theorem concluded_exactly_once_witness:
  "(\<exists>es. (\<forall>e \<in> set es. peer_effect e)
      \<and> r_effects (read_timeout sample_env sample_request) = es @ [Finalize_request NGX_DONE, Run_phases])
   \<and> (\<nexists>r. event_step sample_module sample_env (write_timeout sample_env sample_request) r)"
proof -
  have "r_effects sample_request = []" by (simp add: sample_request_def)
  then show ?thesis
    using concluded_exactly_once [OF sample_module_contract sample_waiting read_timeout_run, of sample_env]
      concluded_exactly_once [OF sample_module_contract sample_waiting write_timeout_run, of sample_env]
      read_timeout_fields(2,4) [of sample_env] write_timeout_fields(1) [of sample_env]
    by (auto simp: last_append)
qed

text \<open>C15: No invented counters: the response headers change during the round trip only if the reply was
  parsed to its end, and the verdict was 429 or \<open>ratelimit_headers\<close> is on.\<close>

theorem headers_need_complete_reply:
  assumes "write_contract N" "waiting r0 r" "(event_step N E)\<^sup>*\<^sup>* r r'"
  shows "r_headers_out r' = r_headers_out r0
    \<or> map_option reply_parsed (r_ctx r') = Some True
      \<and> (u_status (r_u r') = ST_TOO_MANY_REQUESTS \<or> u_status (r_u r') = ST_OK \<and> lc_enable_headers (e_lc E) \<noteq> 0)"
  using waiting_run [OF assms(3,2,1)]
  by (auto simp: waiting_def under_way_def concluded_def given_up_def verdict_status_def split: if_splits)

theorem headers_need_complete_reply_witness:
  "r_headers_out (write_timeout sample_env sample_request) = []"
proof -
  have "r_headers_out sample_request = []" by (simp add: sample_request_def)
  with headers_need_complete_reply [OF sample_module_contract sample_waiting write_timeout_run, of sample_env]
    write_timeout_fields(2) [of sample_env] show ?thesis by simp
qed



section \<open>The start of a check\<close>

lemma prelude_ctx_fields:
  assumes "build_prelude E r ctx = (rc, ctx', r')"
  shows "same_core r r'" "adds safe_log r r'" "key ctx' = key ctx" "finalized ctx' = finalized ctx"
    "reply_parsed ctx' = reply_parsed ctx" "eval_fallback ctx' = eval_fallback ctx"
    "fresh_ctx ctx' = fresh_ctx ctx"
proof -
  have ap: "same_core r r' \<and> adds safe_log r r'" if "append_command P r chain argv = (res, r')" for P r chain argv res r'
  proof -
    obtain rc a r1 where bc: "build_command P r argv = (rc, a, r1)" by (cases "build_command P r argv")
    have "r_effects r' = r_effects r1 \<and> same_core r1 r'"
      using that bc by (auto simp: append_command_def split: if_splits prod.splits dest: alloc_effects same_core_alloc)
    with same_core_build_command [OF bc] build_command_adds [OF bc] show ?thesis
      by (auto intro: same_core_trans simp: adds_def)
  qed
  obtain res ctx1 r1 where a: "prelude_auth E r ctx = (res, ctx1, r1)" by (cases "prelude_auth E r ctx")
  have 1: "same_core r r1 \<and> adds safe_log r r1 \<and> key ctx1 = key ctx \<and> finalized ctx1 = finalized ctx
    \<and> reply_parsed ctx1 = reply_parsed ctx \<and> eval_fallback ctx1 = eval_fallback ctx
    \<and> fresh_ctx ctx1 = fresh_ctx ctx"
    using a
    by (auto simp: prelude_auth_def adds_refl fresh_ctx_def Let_def split: if_splits prod.splits option.splits
        dest!: ap dest: alloc_effects same_core_alloc intro: same_core_trans)
      (auto simp: adds_def dest: alloc_effects same_core_alloc intro: same_core_trans)
  have 2: "same_core r1 r2 \<and> adds safe_log r1 r2" if "prelude_select E r1 chain count = (res, r2)" for chain count res r2
  proof -
    have sa: "r_effects r3 = r_effects r1 \<and> same_core r1 r3" if "set_uint_arg P r1 v = (s, r3)" for P v s r3
      using that same_core_set_uint_arg [OF that] set_uint_args_effects [of P r1 "[v]"]
      by (auto simp: set_uint_arg_def split: if_splits prod.splits dest: alloc_effects)
    with that show ?thesis
      by (auto simp: prelude_select_def split: if_splits prod.splits option.splits dest!: ap intro: adds_refl same_core_trans dest: sa)
        (auto simp: adds_def dest: sa intro: same_core_trans)
  qed
  have "same_core r1 r' \<and> adds safe_log r1 r' \<and> key ctx' = key ctx1 \<and> finalized ctx' = finalized ctx1
    \<and> reply_parsed ctx' = reply_parsed ctx1 \<and> eval_fallback ctx' = eval_fallback ctx1
    \<and> fresh_ctx ctx' = fresh_ctx ctx1"
    using assms a 2
    by (auto simp: build_prelude_def fresh_ctx_def split: option.splits prod.splits intro: adds_refl)
  with 1 show "same_core r r'" "adds safe_log r r'" "key ctx' = key ctx" "finalized ctx' = finalized ctx"
    "reply_parsed ctx' = reply_parsed ctx" "eval_fallback ctx' = eval_fallback ctx"
    "fresh_ctx ctx' = fresh_ctx ctx"
    by (auto intro: same_core_trans adds_trans)
qed

text \<open>What the module relies on of nginx's upstream module: its write handler keeps to its contract;
  creating \<open>r->upstream\<close> changes nothing else and opens no connection; \<open>ngx_http_upstream_init\<close> either has the round trip under way, with a
  connection, or has given up without one.\<close>

definition starts :: "request \<Rightarrow> nat" where
  "starts r = length (filter (\<lambda>e. e = Upstream_init) (r_effects r))"

definition upstream_contract :: "upstream_module \<Rightarrow> bool" where
  "upstream_contract N \<longleftrightarrow> write_contract N \<and>
     (\<forall>r r1. um_create N r = Some r1 \<longrightarrow> r_ctx r1 = r_ctx r \<and> r_done r1 = r_done r
        \<and> starts r1 = starts r \<and> u_conn (r_u r1) = None) \<and>
     (\<forall>E r ctx. r_ctx r = Some ctx \<and> \<not> finalized ctx \<and> \<not> reply_parsed ctx \<and> r_done r \<longrightarrow>
        under_way r False (um_init N E r)
        \<or> u_conn (r_u (um_init N E r)) = None \<and> r_done (um_init N E r) \<and> starts (um_init N E r) = starts r)"

lemma adds_starts: "adds Q r r' \<Longrightarrow> \<not> Q Upstream_init \<Longrightarrow> starts r' = starts r"
  by (auto simp: adds_def starts_def filter_empty_conv)

lemma safe_log_not_init [simp]: "\<not> safe_log Upstream_init" "\<not> peer_effect Upstream_init"
  by (simp_all add: safe_log_def peer_effect_def)

lemma starts_simps [simp]:
  "starts (emit e r) = starts r + (if e = Upstream_init then 1 else 0)"
  "starts (r\<lparr>r_ctx := c\<rparr>) = starts r" "starts (r\<lparr>r_u := u\<rparr>) = starts r" "starts (r\<lparr>r_done := d\<rparr>) = starts r"
  "starts (r\<lparr>r_main_count := k\<rparr>) = starts r" "starts (r\<lparr>r_allocs := as\<rparr>) = starts r"
  by (simp_all add: starts_def emit_def)

text \<open>The invariant of a main request: no more than one start, remembered by the marker, and a
  connection only while a round trip is under way.\<close>

definition one_shot :: "request \<Rightarrow> bool" where
  "one_shot r \<longleftrightarrow> (starts r = 0 \<or> starts r = 1 \<and> r_done r)
     \<and> (u_conn (r_u r) = None \<or> (\<exists>r0. waiting r0 r \<and> starts r0 = starts r))"

lemma waiting_starts: "waiting r0 r \<Longrightarrow> starts r = starts r0"
  using adds_starts [of peer_effect r0 r] by (simp add: waiting_def under_way_def undecided_adds)

lemma peer_not_init: "\<forall>e \<in> set es. peer_effect e \<Longrightarrow> filter (\<lambda>e. e = Upstream_init) es = []"
  by (metis (mono_tags, lifting) filter_False safe_log_not_init(2))

lemma concluded_starts: "concluded E r0 r \<Longrightarrow> starts r = starts r0"
  by (auto simp: concluded_def starts_def peer_not_init)

lemma given_up_starts: "given_up r0 r \<Longrightarrow> starts r = starts r0"
  by (auto simp: given_up_def starts_def peer_not_init)

lemma resolve_target_frame:
  "resolve_target N E r = Inl (rc, lc, r') \<Longrightarrow> r_done r' = r_done r \<and> starts r' = starts r \<and> r_u r' = r_u r"
  by (auto simp: resolve_target_def Let_def emit_def starts_def split: option.splits if_splits)

lemma make_key_frame:
  "(case make_key lc r k of Inl (rc, r') \<Rightarrow> r_done r' = r_done r \<and> starts r' = starts r \<and> r_u r' = r_u r
      | Inr (k', r') \<Rightarrow> r_done r' = r_done r \<and> starts r' = starts r \<and> r_u r' = r_u r \<and> r_ctx r' = r_ctx r
          \<and> k' = (if lc_prefix lc = [] then k else lc_prefix lc @ ''_'' @ k))"
  by (auto simp: make_key_def alloc_def starts_def Let_def split: list.split)

text \<open>How \<open>start_check\<close> ends: without a start, or with a context that carries the full key handed to
  the upstream module.\<close>

definition full_key :: "loc_conf \<Rightarrow> ngx_str \<Rightarrow> ngx_str" where
  "full_key lc k = (if lc_prefix lc = [] then k else lc_prefix lc @ ''_'' @ k)"

lemma start_check_cases:
  assumes sc: "start_check N E z r = (rc, lc, r')" and N: "upstream_contract N" and r: "u_conn (r_u r) = None"
  obtains "rc \<noteq> NGX_AGAIN" "starts r' = starts r" "u_conn (r_u r') = None"
  | k ctx r1 lc1 where "p_complex_value (e_p E) (z_key z) = Some k" "k \<noteq> []"
      "length (full_key (e_lc E) k) \<le> MAX_KEY_LEN" "key ctx = full_key (e_lc E) k"
      "\<not> finalized ctx" "\<not> reply_parsed ctx" "\<not> eval_fallback ctx" "fresh_ctx ctx"
      "r_ctx r1 = Some ctx" "r_done r1" "starts r1 = starts r + 1" "rc = NGX_AGAIN"
      "r' = map_u (\<lambda>u. u\<lparr>u_read_handler := RH_header\<rparr>) (um_init N (E\<lparr>e_lc := lc1\<rparr>) r1)"
proof -
  obtain ok r1 where al: "alloc r = (ok, r1)" by fastforce
  have 1: "starts r1 = starts r" "u_conn (r_u r1) = None"
    using alloc_effects [OF al] same_core_alloc [OF al] r by (auto simp: starts_def same_core_def)
  consider "\<not> ok \<or> p_complex_value (e_p E) (z_key z) = None \<or> p_complex_value (e_p E) (z_key z) = Some []"
    | k where "ok" "p_complex_value (e_p E) (z_key z) = Some k" "k \<noteq> []"
    by (cases "p_complex_value (e_p E) (z_key z)") auto
  then show thesis
  proof cases
    case 1
    with sc al \<open>starts r1 = starts r\<close> \<open>u_conn (r_u r1) = None\<close> show ?thesis
      by (intro that(1)) (auto simp: start_check_def Let_def split: option.splits if_splits)
  next
    case (2 k)
    note mk = make_key_frame [where lc = "e_lc E" and r = r1 and k = k]
    show ?thesis
    proof (cases "make_key (e_lc E) r1 k")
      case (Inl p)
      obtain rc2 r2 where p: "p = (rc2, r2)" by (cases p)
      have "rc2 = HTTP_INTERNAL_SERVER_ERROR"
        using Inl p by (auto simp: make_key_def Let_def split: if_splits prod.splits)
      with 1 2 Inl p mk sc al show ?thesis
        by (intro that(1)) (auto simp: start_check_def Let_def)
    next
      case (Inr p)
      obtain k2 r2 where p: "p = (k2, r2)" by (cases p)
      have 2: "k2 = full_key (e_lc E) k" "starts r2 = starts r" "u_conn (r_u r2) = None"
        using mk Inr p 1 by (auto simp: full_key_def)
      let ?ctx0 = "zero_ctx\<lparr>retry_after := -1, key := k2\<rparr>"
      let ?r3 = "r2\<lparr>r_done := True\<rparr>"
      obtain brc ctx r4 where bp: "build_prelude E ?r3 ?ctx0 = (brc, ctx, r4)"
        by (cases "build_prelude E ?r3 ?ctx0") simp
      note f = prelude_ctx_fields [OF bp]
      have c: "key ctx = k2" "\<not> finalized ctx" "\<not> reply_parsed ctx" "\<not> eval_fallback ctx" "fresh_ctx ctx"
        using f by (simp_all add: zero_ctx_def fresh_ctx_def)
      have 4: "starts r4 = starts r" "u_conn (r_u r4) = None" "r_done r4"
        using adds_starts [OF f(2)] f(1) 2 by (auto simp: same_core_def)
      have eq: "start_check N E z r =
          (if MAX_KEY_LEN < length k2
           then (HTTP_INTERNAL_SERVER_ERROR, e_lc E, emit (Log_error ''key is too long'') r2)
           else if brc \<noteq> NGX_OK then (HTTP_INTERNAL_SERVER_ERROR, e_lc E, r4)
           else case um_create N r4 of
               None \<Rightarrow> (HTTP_INTERNAL_SERVER_ERROR, e_lc E, r4)
             | Some r \<Rightarrow>
                 (case resolve_target N E r of
                    Inl res \<Rightarrow> res
                  | Inr lc \<Rightarrow>
                      let r = r\<lparr>r_ctx := Some ctx, r_main_count := r_main_count r + 1\<rparr>;
                          r = um_init N (E\<lparr>e_lc := lc\<rparr>) (emit Upstream_init r)
                      in (NGX_AGAIN, lc, map_u (\<lambda>u. u\<lparr>u_read_handler := RH_header\<rparr>) r)))"
        using al \<open>ok\<close> \<open>p_complex_value (e_p E) (z_key z) = Some k\<close> \<open>k \<noteq> []\<close> Inr p bp
        by (simp add: start_check_def Let_def)
      show ?thesis
      proof (cases "MAX_KEY_LEN < length k2 \<or> brc \<noteq> NGX_OK \<or> um_create N r4 = None")
        case True
        with sc 2 4 show ?thesis
          by (intro that(1)) (auto simp: eq emit_def starts_def split: if_splits option.splits)
      next
        case False
        then obtain r5 where r5: "um_create N r4 = Some r5" by blast
        then have 5: "starts r5 = starts r" "u_conn (r_u r5) = None" "r_done r5"
          using N 4 by (auto simp: upstream_contract_def)
        show ?thesis
        proof (cases "resolve_target N E r5")
          case (Inl res)
          obtain rc6 lc6 r6 where res: "res = (rc6, lc6, r6)" by (cases res)
          have "rc6 \<noteq> NGX_AGAIN"
            using Inl res by (auto simp: resolve_target_def Let_def split: option.splits if_splits)
          with sc 5 resolve_target_frame [of N E r5 rc6 lc6 r6] Inl res False r5 show ?thesis
            by (intro that(1)) (auto simp: eq)
        next
          case (Inr lc1)
          let ?r6 = "emit Upstream_init (r5\<lparr>r_ctx := Some ctx, r_main_count := r_main_count r5 + 1\<rparr>)"
          have "r_ctx ?r6 = Some ctx" "r_done ?r6" "starts ?r6 = starts r + 1"
            using 5 by (simp_all add: emit_def) (simp add: starts_def)
          moreover have "rc = NGX_AGAIN"
            "r' = map_u (\<lambda>u. u\<lparr>u_read_handler := RH_header\<rparr>) (um_init N (E\<lparr>e_lc := lc1\<rparr>) ?r6)"
            using sc False r5 Inr by (auto simp: eq Let_def)
          moreover have "length (full_key (e_lc E) k) \<le> MAX_KEY_LEN" using False 2 by simp
          moreover have "key ctx = full_key (e_lc E) k" using c 2 by simp
          ultimately show ?thesis
            using that(2) c \<open>p_complex_value (e_p E) (z_key z) = Some k\<close> \<open>k \<noteq> []\<close> by blast
        qed
      qed
    qed
  qed
qed

section \<open>One check per main request\<close>

text \<open>The life of a main request: runs of the PREACCESS phase in whatever location it is in, events of
  a round trip, and internal redirects, which wipe the module's context.\<close>

inductive life_step :: "upstream_module \<Rightarrow> request \<Rightarrow> request \<Rightarrow> bool" for N where
  phase: "handler N E r = (rc, lc, r') \<Longrightarrow> life_step N r r'"
| event: "event_step N E r r' \<Longrightarrow> life_step N r r'"
| redirect: "u_conn (r_u r) = None \<Longrightarrow> life_step N r (r\<lparr>r_ctx := None\<rparr>)"

lemma one_shot_phase:
  assumes N: "upstream_contract N" and h: "handler N E r = (rc, lc, r')" and os: "one_shot r"
  shows "one_shot r'"
proof (cases "r_ctx r")
  case (Some ctx)
  have "r' = r \<or> (\<exists>s. r' = emit (Log_error s) r)"
    using h Some by (auto simp: handler_def decide_def Let_def split: option.splits if_splits)
  moreover have "one_shot (emit (Log_error s) r)" for s
  proof -
    have "waiting r0 r \<Longrightarrow> waiting r0 (emit (Log_error s) r)" for r0
      using under_way_emit [of "Log_error s" r0 False r] by (auto simp: waiting_def in_body_def emit_def)
    with os show ?thesis by (auto simp: one_shot_def) (auto simp: emit_def)
  qed
  ultimately show ?thesis using os by auto
next
  case None
  then have conn: "u_conn (r_u r) = None" using os by (auto simp: one_shot_def waiting_def under_way_def)
  show ?thesis
  proof (cases "r' = r \<or> (\<exists>s. r' = emit (Log_error s) r)")
    case True
    with os conn show ?thesis by (auto simp: one_shot_def) (auto simp: emit_def)
  next
    case False
    then obtain z where z: "start_check N E z r = (rc, lc, r')" and nd: "\<not> r_done r"
      using h None by (auto simp: handler_def Let_def split: option.splits if_splits)
    from nd os have s0: "starts r = 0" by (auto simp: one_shot_def)
    show ?thesis
      using z N conn
    proof (cases rule: start_check_cases)
      case 1
      with s0 show ?thesis by (simp add: one_shot_def)
    next
      case (2 k ctx r1 lc1)
      let ?r2 = "um_init N (E\<lparr>e_lc := lc1\<rparr>) r1"
      from 2(5,6,9,10) N have "under_way r1 False ?r2
          \<or> u_conn (r_u ?r2) = None \<and> r_done ?r2 \<and> starts ?r2 = starts r1"
        by (auto simp: upstream_contract_def)
      then show ?thesis
      proof
        assume uw: "under_way r1 False ?r2"
        then have "under_way r1 False r'" by (simp add: 2(13) under_way_def undecided_def)
        then have w: "waiting r1 r'" by (simp add: waiting_def 2(13))
        moreover have "r_done r'" using uw by (simp add: 2(13) under_way_def)
        ultimately show ?thesis using waiting_starts [OF w] 2(11) s0 by (auto simp: one_shot_def)
      next
        assume "u_conn (r_u ?r2) = None \<and> r_done ?r2 \<and> starts ?r2 = starts r1"
        with 2(11) s0 show ?thesis by (simp add: one_shot_def 2(13))
      qed
    qed
  qed
qed

lemma one_shot_step:
  assumes "life_step N r r'" "upstream_contract N" "one_shot r"
  shows "one_shot r'"
  using assms
proof (induction rule: life_step.induct)
  case (phase E r rc lc r')
  then show ?case by (auto intro: one_shot_phase)
next
  case (event E r r')
  have "u_conn (r_u r) \<noteq> None" using event(1) by (auto elim: event_stepE)
  with event(3) obtain r0 where w: "waiting r0 r" and s: "starts r0 = starts r" by (auto simp: one_shot_def)
  have "r_done r" using w by (simp add: waiting_def under_way_def)
  have "write_contract N" using event(2) by (simp add: upstream_contract_def)
  from waiting_step [OF event(1) w this] show ?case
  proof (elim disjE)
    assume w': "waiting r0 r'"
    then have "r_done r'" by (simp add: waiting_def under_way_def)
    with w' waiting_starts [OF w'] s event(3) \<open>r_done r\<close> show ?thesis
      by (auto simp: one_shot_def)
  next
    assume c: "concluded E r0 r'"
    then have "r_done r'" "u_conn (r_u r') = None" by (auto simp: concluded_def)
    with concluded_starts [OF c] s event(3) show ?thesis by (auto simp: one_shot_def)
  next
    assume g: "given_up r0 r'"
    then have "r_done r'" "u_conn (r_u r') = None" by (auto simp: given_up_def)
    with given_up_starts [OF g] s event(3) show ?thesis by (auto simp: one_shot_def)
  qed
next
  case (redirect r)
  then show ?case by (simp add: one_shot_def)
qed

text \<open>C4: The limiter runs at most once per main request, whatever internal redirects, error pages or
  re-runs of the phase there are: a request that starts without a check is never handed to the
  upstream module twice, so it is never counted twice.\<close>

theorem one_check_per_request:
  assumes "upstream_contract N" "(life_step N)\<^sup>*\<^sup>* r r'" "starts r = 0" "u_conn (r_u r) = None"
  shows "starts r' \<le> 1 \<and> (starts r' = 1 \<longrightarrow> r_done r')"
proof -
  have "one_shot r'"
    using assms(2)
  proof (induction rule: rtranclp_induct)
    case base
    then show ?case using assms(3,4) by (simp add: one_shot_def)
  next
    case (step r1 r2)
    then show ?case using one_shot_step assms(1) by blast
  qed
  then show ?thesis by (auto simp: one_shot_def)
qed

text \<open>An upstream module that connects, and the sample request before its check.\<close>

definition connecting_module :: upstream_module where
  "connecting_module = sample_module\<lparr>
     um_create := (\<lambda>r. Some (r\<lparr>r_u := sample_upstream\<lparr>u_conn := None\<rparr>\<rparr>)),
     um_init := (\<lambda>E r. r\<lparr>r_u := sample_upstream\<rparr>)\<rparr>"

definition fresh_request :: request where
  "fresh_request = sample_request\<lparr>r_ctx := None, r_done := False, r_u := sample_upstream\<lparr>u_conn := None\<rparr>\<rparr>"

lemma connecting_contract: "upstream_contract connecting_module"
proof -
  have "write_contract connecting_module"
    by (rule sample_write_contract) (simp add: connecting_module_def sample_module_def)
  then show ?thesis
    by (simp add: upstream_contract_def connecting_module_def under_way_def undecided_def only_peer_def
        sample_upstream_def)
qed

theorem one_check_per_request_witness:
  "starts (snd (snd (handler connecting_module sample_env fresh_request))) \<le> 1"
proof -
  let ?h = "handler connecting_module sample_env fresh_request"
  have "life_step connecting_module fresh_request (snd (snd ?h))"
    by (rule life_step.phase [of _ sample_env _ "fst ?h" "fst (snd ?h)"]) simp
  then have "(life_step connecting_module)\<^sup>*\<^sup>* fresh_request (snd (snd ?h))" by (rule r_into_rtranclp)
  from one_check_per_request [OF connecting_contract this] show ?thesis
    by (simp add: starts_def fresh_request_def sample_request_def)
qed

text \<open>C32: What a started check asks Redis about: the handler returns \<open>NGX_AGAIN\<close> for a request without a
  context only after setting the one-shot marker, with a context whose key is the zone's key,
  behind \<open>"<prefix>_"\<close> if there is a prefix, not empty before the prefix and at most 65535 bytes with
  it, and with the counters at their initial values; an empty key lets the request pass without
  setting the marker.\<close>

theorem check_key:
  assumes "upstream_contract N" "active (e_lc E)" "r_ctx r = None" "u_conn (r_u r) = None"
    and "lc_zone (e_lc E) = Some z" and "handler N E r = (rc, lc, r')"
  shows "(rc = NGX_AGAIN \<longrightarrow> \<not> r_done r \<and> (\<exists>k ctx r1 lc1. p_complex_value (e_p E) (z_key z) = Some k \<and> k \<noteq> []
        \<and> key ctx = (if lc_prefix (e_lc E) = [] then k else lc_prefix (e_lc E) @ ''_'' @ k)
        \<and> length (key ctx) \<le> 65535 \<and> fresh_ctx ctx \<and> \<not> finalized ctx \<and> r_ctx r1 = Some ctx \<and> r_done r1
        \<and> r' = map_u (\<lambda>u. u\<lparr>u_read_handler := RH_header\<rparr>) (um_init N (E\<lparr>e_lc := lc1\<rparr>) r1)))
    \<and> (p_complex_value (e_p E) (z_key z) = Some [] \<and> fst (alloc r) \<longrightarrow> rc = NGX_DECLINED \<and> r_done r' = r_done r)"
proof (cases "r_done r")
  case True
  with assms(2,3,5,6) show ?thesis by (auto simp: handler_def active_def Let_def)
next
  case False
  with assms(2,3,5,6) have sc: "start_check N E z r = (rc, lc, r')"
    by (auto simp: handler_def active_def Let_def)
  have "p_complex_value (e_p E) (z_key z) = Some [] \<and> fst (alloc r) \<Longrightarrow> rc = NGX_DECLINED \<and> r_done r' = r_done r"
    using sc by (auto simp: start_check_def alloc_def Let_def split: list.splits)
  moreover have "rc = NGX_AGAIN \<longrightarrow> (\<exists>k ctx r1 lc1. p_complex_value (e_p E) (z_key z) = Some k \<and> k \<noteq> []
        \<and> key ctx = (if lc_prefix (e_lc E) = [] then k else lc_prefix (e_lc E) @ ''_'' @ k)
        \<and> length (key ctx) \<le> 65535 \<and> fresh_ctx ctx \<and> \<not> finalized ctx \<and> r_ctx r1 = Some ctx \<and> r_done r1
        \<and> r' = map_u (\<lambda>u. u\<lparr>u_read_handler := RH_header\<rparr>) (um_init N (E\<lparr>e_lc := lc1\<rparr>) r1))"
    using sc assms(1,4)
  proof (cases rule: start_check_cases)
    case (2 k ctx r1 lc1)
    have "length (key ctx) \<le> 65535" using 2(3,4) by (simp add: MAX_KEY_LEN_def)
    then show ?thesis
      using 2 by (auto simp: full_key_def intro!: exI [of _ k] exI [of _ ctx] exI [of _ r1] exI [of _ lc1])
  qed simp
  ultimately show ?thesis using False by blast
qed

theorem check_key_witness:
  "fst (handler connecting_module (sample_env\<lparr>e_p := ascii_platform\<lparr>p_complex_value := (\<lambda>n. Some [])\<rparr>\<rparr>) fresh_request)
     = NGX_DECLINED"
proof -
  let ?E = "sample_env\<lparr>e_p := ascii_platform\<lparr>p_complex_value := (\<lambda>n. Some [])\<rparr>\<rparr>"
  obtain rc lc r' where h: "handler connecting_module ?E fresh_request = (rc, lc, r')"
    by (cases "handler connecting_module ?E fresh_request")
  have "active (e_lc ?E)" "lc_zone (e_lc ?E) = Some sample_zone"
    by (simp_all add: active_def sample_env_def sample_lc_def)
  from check_key [OF connecting_contract this(1) _ _ this(2) h] h show ?thesis
    by (auto simp: fresh_request_def alloc_def sample_request_def)
qed

end
