(* ===== verification/RL_Delivery.thy ===== *)
theory RL_Delivery
  imports RL_System
begin

text \<open>
  How a reply arrives: the read handlers against the text of the reply.  Redis writes one text; the
  network cuts it into pieces and nginx delivers them in any number of read events.  The theorems say
  that the handlers conclude the request exactly when the text is complete or wrong, with the values
  of the text, and when they do not.
\<close>

section \<open>The parser against the text\<close>

text \<open>What the parser has read so far: its state, the four counters and the status.  Everything else
  of the context and the upstream is replaced by constants.\<close>

definition canon :: "parse_state \<Rightarrow> parse_state" where
  "canon = (\<lambda>(st, c, u). (st, zero_ctx\<lparr>limit := limit c, remaining := remaining c, reset := reset c,
     retry_after := retry_after c\<rparr>, sample_upstream\<lparr>u_status := u_status u\<rparr>))"

lemma reply_step_canon: "reply_step ch (canon s) = map_outcome canon (reply_step ch s)"
proof -
  obtain st c u where "s = (st, c, u)" by (cases s) auto
  then show ?thesis
    by (cases st) (auto simp: canon_def Let_def split: option.splits)
qed

lemma run_bytes_canon: "run_bytes cs (canon s) = map_outcome canon (run_bytes cs s)"
  unfolding run_bytes_def by (rule rp.loop_commute) (rule reply_step_canon)

definition reads :: "request \<Rightarrow> parse_state" where
  "reads r = (let ctx = the (r_ctx r) in canon (state ctx, ctx, r_u r))"

text \<open>The parser before the first byte, once the head has been accepted.\<close>

definition unread :: parse_state where
  "unread = (sw_start, zero_ctx\<lparr>retry_after := -1\<rparr>, sample_upstream\<lparr>u_status := ST_OK\<rparr>)"

text \<open>One call of the input filter on bytes that are in the buffer after \<open>last\<close>.\<close>

lemma filter_reads:
  assumes ctx: "r_ctx r = Some ctx" and offers: "offers (r_u r) bs"
    and fl: "input_filter r (length bs) = (rc, r')"
  obtains ctx' where "r_ctx r' = Some ctx'" "rc = NGX_AGAIN" "run_bytes bs (reads r) = Next (reads r')"
    | ctx' st where "r_ctx r' = Some ctx'" "rc = NGX_OK" "run_bytes bs (reads r) = Done (canon (st, ctx', r_u r'))"
    | ctx' s where "r_ctx r' = Some ctx'" "rc = NGX_ERROR" "run_bytes bs (reads r) = Fail s"
proof -
  let ?u = "r_u r" let ?t = "taken ?u (length bs)"
  obtain c' u' where pr: "process_reply ctx ?u (length bs) = (rc, c', u')"
    and r': "r' = r\<lparr>r_ctx := Some c', r_u := u'\<rparr>"
    using fl ctx by (auto simp: input_filter_def split: prod.splits)
  have "b_data (u_buffer ?t) = bs"
    using offers by (simp add: offers_def taken_def b_data_def span_of_def)
  then have "loop_exit ctx ?u (length bs) = run_bytes bs (state ctx, ctx, ?t)"
    using rp.loop_offset [of bs "b_pos (u_buffer ?t)" "(state ctx, ctx, ?t)" 0]
    by (simp only: loop_exit_def run_bytes_def)
  moreover have "reads r = canon (state ctx, ctx, ?t)" by (simp add: reads_def Let_def ctx canon_def taken_def)
  ultimately have run: "run_bytes bs (reads r) = map_outcome canon (loop_exit ctx ?u (length bs))"
    by (simp add: run_bytes_canon)
  show thesis
  proof (cases "loop_exit ctx ?u (length bs)")
    case (Next s)
    obtain st c1 u1 where s: "s = (st, c1, u1)" by (cases s) auto
    from process_reply_Next [OF Next [unfolded s]] pr obtain p where
      "rc = NGX_AGAIN" "c' = c1\<lparr>state := st\<rparr>" "u' = u1\<lparr>u_buffer := (u_buffer u1)\<lparr>b_pos := p\<rparr>\<rparr>"
      by auto
    then show ?thesis using run by (intro that(1) [of c']) (simp_all add: r' Next s reads_def canon_def Let_def)
  next
    case (Done s)
    obtain st c1 u1 where s: "s = (st, c1, u1)" by (cases s) auto
    from process_reply_Done [OF Done [unfolded s]] pr obtain p where
      "rc = NGX_OK" "c' = c1\<lparr>reply_parsed := True\<rparr>"
      "u' = u1\<lparr>u_buffer := (u_buffer u1)\<lparr>b_pos := p\<rparr>, u_keepalive := True, u_length := 0\<rparr>"
      by auto
    then show ?thesis using run by (intro that(2) [of c' st]) (simp_all add: r' Done s canon_def)
  next
    case (Fail s)
    obtain st c1 u1 where s: "s = (st, c1, u1)" by (cases s) auto
    from process_reply_Fail [OF Fail [unfolded s]] pr have "rc = NGX_ERROR" by simp
    then show ?thesis using run by (intro that(3) [of c' "canon s"]) (simp_all add: r' Fail)
  qed
qed

lemma input_filter_buffer:
  "input_filter r n = (rc, r') \<Longrightarrow> r_ctx r = Some ctx \<Longrightarrow>
     b_mem (u_buffer (r_u r')) = b_mem (u_buffer (r_u r)) \<and> b_last (u_buffer (r_u r')) = b_last (u_buffer (r_u r)) + n"
  by (auto simp: input_filter_def process_reply_frame(7,8) split: prod.splits)

section \<open>What the socket holds\<close>

text \<open>The bytes a run of reads can take before the socket is empty, when nothing goes wrong: data and
  "nothing yet".  \<open>ready\<close> is cleared only when nothing is left.\<close>

fun avail_in :: "recv_ev list \<Rightarrow> char list" where
  "avail_in (Recv_data bs rdy # evs) = bs @ avail_in evs"
| "avail_in _ = []"

fun orderly :: "recv_ev list \<Rightarrow> bool" where
  "orderly [] = True"
| "orderly (Recv_data bs rdy # evs) = (bs \<noteq> [] \<and> orderly evs \<and> (rdy \<or> avail_in evs = []))"
| "orderly (Recv_again # evs) = (evs = [])"
| "orderly (_ # evs) = False"

definition avail :: "conn \<Rightarrow> char list" where
  "avail c = avail_in (c_recv c)"

definition calm :: "conn \<Rightarrow> bool" where
  "calm c \<longleftrightarrow> orderly (c_recv c) \<and> (c_rd_ready c \<or> avail c = []) \<and> \<not> c_rd_eof c \<and> \<not> c_rd_error c
     \<and> \<not> c_rd_timedout c \<and> c_rd_event_ok c"

lemma recv_avail:
  assumes "calm c" "0 < sz" "recv c sz = (n, bs, c')"
  shows "calm c'" "avail c = bs @ avail c'" "length bs \<le> sz"
    "if avail c = [] then n = NGX_AGAIN \<and> bs = [] else bs \<noteq> [] \<and> n = int (length bs)"
proof -
  have "calm c' \<and> avail c = bs @ avail c' \<and> length bs \<le> sz
      \<and> (if avail c = [] then n = NGX_AGAIN \<and> bs = [] else bs \<noteq> [] \<and> n = int (length bs))"
  proof (cases "c_recv c")
    case Nil
    with assms show ?thesis by (auto simp: recv.simps calm_def avail_def)
  next
    case (Cons e evs)
    with assms show ?thesis
      by (cases e) (auto simp: recv.simps calm_def avail_def split: if_splits)
  qed
  then show "calm c'" "avail c = bs @ avail c'" "length bs \<le> sz"
    "if avail c = [] then n = NGX_AGAIN \<and> bs = [] else bs \<noteq> [] \<and> n = int (length bs)"
    by blast+
qed

section \<open>The body of the reply\<close>

text \<open>Reading the body: \<open>xs\<close> is what has been read of the text after the type byte.\<close>

definition body_at :: "request \<Rightarrow> ngx_str \<Rightarrow> request \<Rightarrow> bool" where
  "body_at r0 xs r \<longleftrightarrow> under_way r0 False r \<and> in_body r \<and> u_read_handler (r_u r) = RH_body
     \<and> run_bytes xs unread = Next (reads r) \<and> 0 < b_end (u_buffer (r_u r))"

definition room :: "request \<Rightarrow> bool" where
  "room r \<longleftrightarrow> b_last (u_buffer (r_u r)) < b_end (u_buffer (r_u r))"

text \<open>How the loop ends, given the text in the socket.\<close>

definition body_exit :: "env \<Rightarrow> request \<Rightarrow> ngx_str \<Rightarrow> loop_result \<Rightarrow> bool" where
  "body_exit E r0 text res \<longleftrightarrow> (case run_bytes text unread of
     Next s \<Rightarrow> \<exists>r c. res = Broke r \<and> body_at r0 text r \<and> room r \<and> u_conn (r_u r) = Some c \<and> calm c
   | Done s \<Rightarrow> \<exists>r ctx st. res = Returned (finalize_upstream_request E r NGX_DONE) \<and> complete r0 r
       \<and> r_ctx r = Some ctx \<and> s = canon (st, ctx, r_u r)
   | Fail s \<Rightarrow> \<exists>r. res = Returned (finalize_upstream_request E r NGX_ERROR) \<and> under_way r0 False r)"

lemma body_loop_complete:
  assumes "complete r0 r"
  shows "body_loop E r True = Returned (finalize_upstream_request E r NGX_DONE)"
proof -
  obtain c where "u_conn (r_u r) = Some c" using assms by (auto simp: complete_def under_way_def)
  with assms show ?thesis by (subst body_loop.simps) (simp add: complete_def under_way_def)
qed

lemma body_loop_text:
  assumes "body_at r0 xs r" "u_conn (r_u r) = Some c" "calm c" "do_write \<or> room r"
  shows "body_exit E r0 (xs @ avail c) (body_loop E r do_write)"
  using assms
proof (induction "recv_size r" arbitrary: r c xs do_write rule: less_induct)
  case less
  have uw: "under_way r0 False r" "in_body r" and len: "u_length (r_u r) \<noteq> 0"
    and bufs: "\<not> (u_out_bufs (r_u r) \<or> u_busy_bufs (r_u r))"
    and flags: "\<not> c_rd_eof c" "\<not> c_rd_error c"
    using less.prems by (auto simp: body_at_def in_body_def under_way_def calm_def)
  define r1 where "r1 = (if do_write then map_u (\<lambda>u. u\<lparr>u_buffer := buf_rewind (u_buffer u)\<rparr>) r else r)"
  have 1: "body_at r0 xs r1" "room r1" "u_conn (r_u r1) = Some c"
    using less.prems
    by (auto simp: r1_def body_at_def under_way_def undecided_def in_body_def room_def buf_rewind_def buf_ok_def
        reads_def canon_def Let_def)
  let ?b = "u_buffer (r_u r1)"
  let ?sz = "b_end ?b - b_last ?b"
  have sz: "0 < ?sz" using 1(2) by (simp add: room_def)
  obtain n bs c' where rcv: "recv c ?sz = (n, bs, c')" by (cases "recv c ?sz")
  define r2 where "r2 = received c' bs r1"
  define r3 where "r3 = map_u (\<lambda>u. u\<lparr>u_bytes_received := u_bytes_received u + n,
            u_response_length := u_response_length u + n\<rparr>) r2"
  have eq: "body_loop E r do_write =
      (if \<not> c_rd_ready c then Broke r1
       else if n = NGX_AGAIN then Broke r2
       else if 0 < n then
         (case input_filter r3 (nat n) of (rc, r4) \<Rightarrow>
            if rc = NGX_ERROR then Returned (finalize_upstream_request E r4 NGX_ERROR)
            else body_loop E r4 True)
       else body_loop E r2 True)"
    using less.prems(2) bufs len flags sz rcv unfolding r3_def r2_def r1_def
    by (subst body_loop.simps) (auto simp: Let_def)
  show ?case
  proof (cases "c_rd_ready c")
    case False
    with 1 less.prems(3) show ?thesis
      by (auto simp: eq body_exit_def calm_def body_at_def intro!: exI [of _ r1])
  next
    case True
    note ra = recv_avail [OF less.prems(3) sz rcv]
    have b2: "u_buffer (r_u r2) = buf_store ?b bs" "u_conn (r_u r2) = Some c'"
      by (simp_all add: r2_def received_def)
    have fit: "b_last ?b + length bs \<le> b_end ?b" using ra(3) 1(2) by (simp add: room_def)
    have 2: "body_at r0 xs r2" "room r2"
      using 1 fit by (auto simp: r2_def received_def body_at_def under_way_def undecided_def in_body_def room_def
          buf_store_def buf_ok_def reads_def canon_def Let_def)
    show ?thesis
    proof (cases "avail c = []")
      case True
      with ra(4) have "n = NGX_AGAIN" "xs @ avail c = xs" by simp_all
      with 2 b2 ra(1) \<open>c_rd_ready c\<close> show ?thesis
        by (auto simp: eq body_exit_def body_at_def intro!: exI [of _ r2])
    next
      case False
      with ra(4) have n: "bs \<noteq> []" "n = int (length bs)" "0 < n" by auto
      have 3: "body_at r0 xs r3" "u_conn (r_u r3) = Some c'" "u_buffer (r_u r3) = buf_store ?b bs"
        using 2 b2 by (auto simp: r3_def body_at_def under_way_def undecided_def in_body_def reads_def canon_def Let_def)
      have uw3: "under_way r0 False r3" "in_body r3" "u_read_handler (r_u r3) = RH_body"
        and run3: "run_bytes xs unread = Next (reads r3)" using 3 by (simp_all add: body_at_def)
      have offers: "offers (r_u r3) bs"
        using fit mem_write_read [of "b_last ?b" "b_mem ?b" bs] by (simp add: offers_def 3(3) buf_store_def)
      obtain rc r4 where fl: "input_filter r3 (length bs) = (rc, r4)" by fastforce
      obtain ctx where ctx: "r_ctx r3 = Some ctx" using uw3 by (auto simp: under_way_def)
      have whole: "run_bytes (xs @ avail c) unread = outcome_bind (run_bytes bs (reads r3)) (run_bytes (avail c'))"
        by (simp add: ra(2) run_bytes_append run3 flip: append_assoc)
      have step: "body_loop E r do_write = (if rc = NGX_ERROR then Returned (finalize_upstream_request E r4 NGX_ERROR)
            else body_loop E r4 True)"
        using n fl \<open>c_rd_ready c\<close> by (simp add: eq)
      note f = in_body_filter [OF uw3(1,2) fl]
      from ctx offers fl show ?thesis
      proof (cases rule: filter_reads)
        case (1 ctx')
        have "u_conn (r_u r4) = Some c'"
          using u_restD(1) [OF input_filter_u_rest [OF fl]] 3(2) by simp
        moreover have "body_at r0 (xs @ bs) r4"
          using 1 f uw3(3) run3 input_filter_buffer [OF fl ctx] 2(1) b2
          by (auto simp: body_at_def run_bytes_append 3(3) buf_store_def)
        moreover have "recv_size r4 < recv_size r"
          using recv_decreases [OF rcv] n less.prems(2) calculation(1) by (simp add: recv_size_def)
        ultimately have "body_exit E r0 ((xs @ bs) @ avail c') (body_loop E r4 True)"
          using less.hyps ra(1) by blast
        with 1 step show ?thesis by (simp add: ra(2))
      next
        case (2 ctx' st)
        with f have "complete r0 r4" by auto
        with 2 step whole body_loop_complete [of r0 r4 E] show ?thesis by (auto simp: body_exit_def)
      next
        case (3 ctx' s)
        with f step whole show ?thesis by (auto simp: body_exit_def)
      qed
    qed
  qed
qed

section \<open>One read event in the body\<close>

text \<open>The result of an event, given the text read so far: waiting for the rest, concluded with the values
  of the text, or concluded as broken.\<close>

definition settled :: "env \<Rightarrow> request \<Rightarrow> parse_state \<Rightarrow> request \<Rightarrow> bool" where
  "settled E r0 s r \<longleftrightarrow> concluded E r0 r
     \<and> (\<exists>ctx st. r_ctx r = Some ctx \<and> reply_parsed ctx \<and> s = canon (st, ctx, r_u r))"

definition broken_off :: "env \<Rightarrow> request \<Rightarrow> request \<Rightarrow> bool" where
  "broken_off E r0 r \<longleftrightarrow> concluded E r0 r \<and> map_option reply_parsed (r_ctx r) = Some False
     \<and> u_status (r_u r) = of_int HTTP_INTERNAL_SERVER_ERROR"

definition body_result :: "env \<Rightarrow> request \<Rightarrow> ngx_str \<Rightarrow> request \<Rightarrow> bool" where
  "body_result E r0 xs r \<longleftrightarrow> (case run_bytes xs unread of
     Next s \<Rightarrow> body_at r0 xs r \<and> room r
   | Done s \<Rightarrow> settled E r0 s r
   | Fail s \<Rightarrow> broken_off E r0 r)"

lemma done_settled:
  assumes "complete r0 r" "r_ctx r = Some ctx" "s = canon (st, ctx, r_u r)"
  shows "settled E r0 s (finalize_upstream_request E r NGX_DONE)"
proof -
  have r: "u_cleanup (r_u r)" "undecided r0 r" "r_done r" "reply_parsed ctx"
    using assms(1,2) by (auto simp: complete_def under_way_def)
  note sh = concluded_shape [OF assms(2) r(1-3), of NGX_DONE E]
  show ?thesis
    using complete_concludes [OF assms(1), of E] sh(1,2) r(4) assms(3)
    by (auto simp: settled_def canon_def surfaced_def)
qed

lemma error_broken_off:
  assumes "under_way r0 False r"
  shows "broken_off E r0 (finalize_upstream_request E r NGX_ERROR)"
proof -
  obtain ctx where ctx: "r_ctx r = Some ctx" "\<not> reply_parsed ctx" using assms by (auto simp: under_way_def)
  have r: "u_cleanup (r_u r)" "undecided r0 r" "r_done r" using assms by (auto simp: under_way_def)
  note sh = concluded_shape [OF ctx(1) r, of NGX_ERROR E]
  show ?thesis
    using failure_concludes [OF assms, of NGX_ERROR E] sh(1,2) ctx(2)
    by (simp add: broken_off_def surfaced_def failure_rc_def)
qed

lemma body_at_timer: "body_at r0 xs r \<Longrightarrow> body_at r0 xs (set_rd_timer on r)"
  and room_timer: "room (set_rd_timer on r) = room r"
  by (auto simp: set_rd_timer_def body_at_def in_body_def room_def reads_def canon_def Let_def intro: under_way_conn)

lemma read_body_text:
  assumes "body_at r0 xs r" "u_conn (r_u r) = Some c" "calm c" "room r"
  shows "body_result E r0 (xs @ avail c) (read_body_handler E r)"
proof -
  have len: "u_length (r_u r) \<noteq> 0" using assms(1) by (simp add: body_at_def in_body_def)
  have ex: "body_exit E r0 (xs @ avail c) (body_loop E r False)"
    using assms by (intro body_loop_text) simp_all
  have eq: "read_body_handler E r = process_redis_response E r False"
    using assms(2,3) by (simp add: read_body_handler_def calm_def)
  show ?thesis
  proof (cases "run_bytes (xs @ avail c) unread")
    case (Next s)
    with ex obtain r' c' where r': "body_loop E r False = Broke r'" "body_at r0 (xs @ avail c) r'" "room r'"
      "u_conn (r_u r') = Some c'" "calm c'" by (auto simp: body_exit_def)
    with Next len show ?thesis
      by (simp add: body_result_def eq process_redis_response_def body_at_timer room_timer calm_def)
  next
    case (Done s)
    with ex len show ?thesis
      by (auto simp: body_exit_def body_result_def eq process_redis_response_def intro: done_settled)
  next
    case (Fail s)
    with ex len show ?thesis
      by (auto simp: body_exit_def body_result_def eq process_redis_response_def intro: error_broken_off)
  qed
qed

text \<open>The switch from the head to the body: what is left in the buffer is parsed first.\<close>

lemma process_response_text:
  assumes uw: "under_way r0 False r" "in_body r" and rd: "reads r = unread"
    and c: "u_conn (r_u r) = Some c" "calm c" and buf: "buf_ok (u_buffer (r_u r))" "room r"
    and ok: "r_tcp_nodelay_ok r" "r_flush_ok r"
  shows "body_result E r0 (b_data (u_buffer (r_u r)) @ avail c) (process_response E r)"
proof -
  let ?b = "u_buffer (r_u r)" let ?n = "b_last ?b - b_pos ?b"
  let ?r1 = "map_u (\<lambda>u. u\<lparr>u_read_handler := RH_body, u_write_handler := WH_dummy\<rparr>) r"
  show ?thesis
  proof (cases "?n = 0")
    case True
    let ?r2 = "emit Flush_client (map_u (\<lambda>u. u\<lparr>u_buffer := buf_rewind ?b\<rparr>) ?r1)"
    have "under_way r0 False ?r2" "in_body ?r2"
      using uw by (auto simp: under_way_def in_body_def emit_def undecided_def)
    then have "body_at r0 [] ?r2" "room ?r2"
      using rd buf by (auto simp: body_at_def room_def emit_def reads_def canon_def Let_def buf_rewind_def)
    moreover have "u_conn (r_u ?r2) = Some c" using c by (simp add: emit_def)
    ultimately have "body_result E r0 ([] @ avail c) (read_body_handler E ?r2)" using c(2) by (intro read_body_text)
    moreover have "b_data ?b = []" using True by (simp add: b_data_def span_of_def)
    ultimately show ?thesis using True ok by (simp add: process_response_def Let_def filter_init_def emit_def)
  next
    case False
    let ?r2 = "map_u (\<lambda>u. u\<lparr>u_buffer := ?b\<lparr>b_last := b_pos ?b\<rparr>,
                              u_response_length := u_response_length u + int ?n\<rparr>) ?r1"
    have uw2: "under_way r0 False ?r2" "in_body ?r2"
      using uw by (auto simp: under_way_def in_body_def undecided_def)
    have rd2: "reads ?r2 = unread" using rd by (simp add: reads_def canon_def Let_def)
    obtain ctx where ctx: "r_ctx ?r2 = Some ctx" using uw by (auto simp: under_way_def)
    have n: "length (b_data ?b) = ?n" using b_data_length [OF buf(1)] .
    have offers: "offers (r_u ?r2) (b_data ?b)"
      using n by (simp add: offers_def b_data_def span_of_def)
    obtain rc r3 where fl: "input_filter ?r2 (length (b_data ?b)) = (rc, r3)" by fastforce
    have eq: "process_response E r =
          (if rc = NGX_ERROR then finalize_upstream_request E r3 NGX_ERROR
           else if u_length (r_u r3) = 0 then finalize_upstream_request E r3 NGX_DONE
           else read_body_handler E r3)"
      using False ok fl n by (simp add: process_response_def Let_def filter_init_def)
    note f = in_body_filter [OF uw2 fl]
    have conn: "u_conn (r_u r3) = Some c"
      using u_restD(1) [OF input_filter_u_rest [OF fl]] c by simp
    from ctx offers fl show ?thesis
    proof (cases rule: filter_reads)
      case (1 ctx')
      have "body_at r0 (b_data ?b) r3" "room r3"
        using 1 f rd2 input_filter_buffer [OF fl ctx] buf n
        by (auto simp: body_at_def room_def buf_ok_def)
      then have "body_result E r0 (b_data ?b @ avail c) (read_body_handler E r3)"
        by (rule read_body_text [OF _ conn c(2)])
      moreover have "u_length (r_u r3) \<noteq> 0" using 1 f by (auto simp: in_body_def)
      ultimately show ?thesis using 1 by (simp add: eq)
    next
      case (2 ctx' st)
      then have comp: "complete r0 r3" using f by auto
      with 2 rd2 have "run_bytes (b_data ?b @ avail c) unread = Done (canon (st, ctx', r_u r3))"
        by (simp add: run_bytes_append)
      with comp 2 show ?thesis
        by (auto simp: eq body_result_def complete_def intro: done_settled)
    next
      case (3 ctx' s)
      then have "run_bytes (b_data ?b @ avail c) unread = Fail s" using rd2 by (simp add: run_bytes_append)
      with 3 f show ?thesis by (auto simp: eq body_result_def intro: error_broken_off)
    qed
  qed
qed

section \<open>Read events in the head\<close>

text \<open>Reading the head: \<open>fut\<close> is the text still to come, and with what is unread in the buffer it is one
  \<open>+\<close> line for every prelude reply due, the type byte and the body of the reply.  The text is shorter
  than the buffer.\<close>

definition good_head :: "nat \<Rightarrow> ngx_str \<Rightarrow> ngx_str \<Rightarrow> bool" where
  "good_head k s body \<longleftrightarrow> prelude_spec k s = (NGX_OK, 0, CHR ''*'' # body)"

lemma prelude_spec_prefix:
  assumes "good_head k (s @ t) body"
  obtains j u where "prelude_spec k s = (NGX_AGAIN, j, u)" "t \<noteq> []" "good_head j (u @ t) body"
    | u where "prelude_spec k s = (NGX_OK, 0, u)" "u @ t = CHR ''*'' # body"
  using assms unfolding good_head_def
proof (induction k arbitrary: s thesis)
  case (Suc k)
  show ?case
  proof (cases "LF \<in> set s")
    case False
    with Suc.prems show ?thesis by (cases t) auto
  next
    case True
    then obtain xs ys where s: "s = xs @ LF # ys" "LF \<notin> set xs" "dropWhile (\<lambda>ch. ch \<noteq> LF) s = LF # ys"
      by (rule line_split)
    have d: "dropWhile (\<lambda>ch. ch \<noteq> LF) (s @ t) = LF # ys @ t"
      using s(1) dropWhile_line [OF s(2)] by simp
    have hd: "hd (s @ t) = hd s" using True by (cases s) auto
    from Suc.prems(3) True d hd have plus: "hd s = CHR ''+''" and rest: "prelude_spec k (ys @ t) = (NGX_OK, 0, CHR ''*'' # body)"
      by (auto split: if_splits)
    show ?thesis
      by (rule Suc.IH [OF _ _ rest]) (use Suc.prems(1,2) True plus s(3) in auto)
  qed
qed auto

definition head_at :: "request \<Rightarrow> ngx_str \<Rightarrow> ngx_str \<Rightarrow> request \<Rightarrow> bool" where
  "head_at r0 fut body r \<longleftrightarrow> under_way r0 False r \<and> u_read_handler (r_u r) = RH_header
     \<and> \<not> u_start_null (r_u r) \<and> fut \<noteq> []
     \<and> r_tcp_nodelay_ok r \<and> r_flush_ok r \<and> buf_ok (u_buffer (r_u r))
     \<and> b_last (u_buffer (r_u r)) + length fut < b_end (u_buffer (r_u r))
     \<and> (\<exists>ctx. r_ctx r = Some ctx \<and> fresh_ctx ctx
          \<and> good_head (prelude_replies ctx) (b_data (u_buffer (r_u r)) @ fut) body)"

text \<open>What stays when the head is only read: the memory and the end of the buffer, the connection.\<close>

definition keeps_buffer :: "request \<Rightarrow> request \<Rightarrow> bool" where
  "keeps_buffer r r' \<longleftrightarrow> b_mem (u_buffer (r_u r')) = b_mem (u_buffer (r_u r))
     \<and> b_last (u_buffer (r_u r')) = b_last (u_buffer (r_u r)) \<and> u_conn (r_u r') = u_conn (r_u r)
     \<and> r_tcp_nodelay_ok r' = r_tcp_nodelay_ok r \<and> r_flush_ok r' = r_flush_ok r"

lemma keeps_buffer_core: "same_core r r' \<Longrightarrow> keeps_buffer r r'"
  by (simp add: keeps_buffer_def same_core_def)

lemma consume_prelude_keeps: "consume_prelude_reply r = (rc, r') \<Longrightarrow> keeps_buffer r r'"
  using same_core_log_reply [of r]
  by (auto simp: consume_prelude_reply_def Let_def keeps_buffer_core split: if_splits)
    (simp_all add: keeps_buffer_def)

lemma consume_preludes_keeps: "consume_preludes k r = (rc, r') \<Longrightarrow> keeps_buffer r r'"
proof (induction k arbitrary: r)
  case (Suc k)
  obtain prc r1 where c: "consume_prelude_reply r = (prc, r1)" by fastforce
  then have 1: "keeps_buffer r r1" by (rule consume_prelude_keeps)
  show ?case
  proof (cases "prc = NGX_OK")
    case True
    let ?r2 = "r1\<lparr>r_ctx := map_option (\<lambda>ctx. ctx\<lparr>prelude_replies := k\<rparr>) (r_ctx r1)\<rparr>"
    have "consume_preludes k ?r2 = (rc, r')" using Suc.prems c True by simp
    from Suc.IH [OF this] 1 show ?thesis by (simp add: keeps_buffer_def)
  qed (use Suc.prems c 1 in auto)
qed (simp add: keeps_buffer_def)

lemma process_header_text:
  assumes "buf_ok (u_buffer (r_u r))" "r_ctx r = Some ctx"
    and "good_head (prelude_replies ctx) (b_data (u_buffer (r_u r)) @ fut) body"
    and "process_header E r = (rc, r')"
  shows "buf_ok (u_buffer (r_u r')) \<and> keeps_buffer r r' \<and> (\<exists>j. r_ctx r' = Some (ctx\<lparr>prelude_replies := j\<rparr>)
     \<and> (rc = NGX_AGAIN \<and> fut \<noteq> [] \<and> good_head j (b_data (u_buffer (r_u r')) @ fut) body
        \<or> rc = NGX_OK \<and> b_data (u_buffer (r_u r')) @ fut = body))"
proof -
  obtain rc1 r1 where c: "consume_preludes (prelude_replies ctx) r = (rc1, r1)" by fastforce
  obtain j where b1: "buf_ok (u_buffer (r_u r1))"
    and spec: "prelude_spec (prelude_replies ctx) (b_data (u_buffer (r_u r))) = (rc1, j, b_data (u_buffer (r_u r1)))"
    and ctx1: "r_ctx r1 = Some (ctx\<lparr>prelude_replies := j\<rparr>)"
    using consume_preludes_spec [OF assms(1) c assms(2) refl] by blast
  have k: "keeps_buffer r r1" using c by (rule consume_preludes_keeps)
  from assms(3) show ?thesis
  proof (cases rule: prelude_spec_prefix)
    case (1 j' u)
    with spec have "rc1 = NGX_AGAIN" "j' = j" "u = b_data (u_buffer (r_u r1))" by simp_all
    with 1 assms(2,4) c b1 ctx1 k show ?thesis by (auto simp: process_header_def)
  next
    case (2 u)
    with spec have eqs: "rc1 = NGX_OK" "j = 0" "u = b_data (u_buffer (r_u r1))" by simp_all
    with assms(2,4) c have h: "process_reply_head E r1 = (rc, r')" by (simp add: process_header_def)
    note ok = process_reply_head_OK [OF b1 h]
    show ?thesis
    proof (cases "u = []")
      case True
      then have "b_last (u_buffer (r_u r1)) - b_pos (u_buffer (r_u r1)) < 1"
        using eqs b_data_length [OF b1] by simp
      then have "rc = NGX_AGAIN" "r' = r1" using h by (auto simp: process_reply_head_def Let_def)
      with 2 eqs b1 ctx1 True k show ?thesis by (auto simp: good_head_def)
    next
      case False
      with 2(2) obtain v where v: "u = CHR ''*'' # v" "v @ fut = body" by (cases u) auto
      then have data: "b_data (u_buffer (r_u r1)) = CHR ''*'' # v" using eqs by simp
      with ok(1) have rc: "rc = NGX_OK" by simp
      then have "keeps_buffer r1 r'"
        using h by (auto simp: process_reply_head_def Let_def keeps_buffer_def split: if_splits prod.splits)
      with k have "keeps_buffer r r'" by (simp add: keeps_buffer_def)
      with rc ok(2) [OF rc] v(2) data eqs(2) ctx1 show ?thesis by (intro conjI exI [of _ 0]) simp_all
    qed
  qed
qed

text \<open>How the loop over the head ends: it waits for more of the head, or it has the body of the reply,
  of which a part may be in the buffer and a part in the socket.\<close>

definition head_exit :: "request \<Rightarrow> ngx_str \<Rightarrow> ngx_str \<Rightarrow> request + (int \<times> request) \<Rightarrow> bool" where
  "head_exit r0 later body res \<longleftrightarrow> (case res of
     Inl r \<Rightarrow> head_at r0 later body r
   | Inr (rc, r) \<Rightarrow> rc = NGX_OK \<and> under_way r0 False r \<and> reads r = unread \<and> u_status (r_u r) = ST_OK
       \<and> r_tcp_nodelay_ok r \<and> r_flush_ok r \<and> buf_ok (u_buffer (r_u r)) \<and> room r
       \<and> (\<exists>c. u_conn (r_u r) = Some c \<and> calm c \<and> b_data (u_buffer (r_u r)) @ avail c @ later = body))"

lemma fresh_reads:
  assumes "r_ctx r = Some ctx" "fresh_ctx ctx" "u_status (r_u r) = ST_OK"
  shows "reads r = unread"
  using assms by (simp add: reads_def canon_def unread_def fresh_ctx_def zero_ctx_def)

lemma b_data_store:
  assumes "buf_ok b" "b_last b + length bs \<le> b_end b"
  shows "b_data ((buf_store b bs)\<lparr>b_last := b_last b + length bs\<rparr>) = b_data b @ bs"
proof -
  obtain k where k: "b_last b = b_pos b + k" using assms(1) by (auto simp: buf_ok_def le_iff_add)
  let ?A = "drop (b_pos b) (take (b_pos b + k) (b_mem b))"
  have A: "length ?A = k" "?A = take k (drop (b_pos b) (b_mem b))"
    using assms(2) k by (simp_all add: drop_take)
  have "drop (b_pos b) (mem_write (b_mem b) (b_pos b + k) bs) = ?A @ bs @ drop (b_pos b + k + length bs) (b_mem b)"
    using assms(2) k by (simp add: mem_write_def)
  then have "take (k + length bs) (drop (b_pos b) (mem_write (b_mem b) (b_pos b + k) bs))
      = take k (drop (b_pos b) (b_mem b)) @ bs"
    using A by simp
  with k show ?thesis by (simp add: b_data_def span_of_def buf_store_def)
qed

lemma header_loop_text:
  assumes "head_at r0 (avail c @ later) body r" "u_conn (r_u r) = Some c" "calm c"
  shows "head_exit r0 later body (header_loop E r)"
  using assms
proof (induction "recv_size r" arbitrary: r c rule: less_induct)
  case less
  let ?b = "u_buffer (r_u r)"
  let ?sz = "b_end ?b - b_last ?b"
  have uw: "under_way r0 False r" and rh: "u_read_handler (r_u r) = RH_header" and buf: "buf_ok ?b"
    and cap: "b_last ?b + length (avail c @ later) < b_end ?b"
    using less.prems(1) by (simp_all add: head_at_def)
  have sz: "0 < ?sz" using cap by simp
  obtain ctx where ctx: "r_ctx r = Some ctx" "fresh_ctx ctx"
    and head: "good_head (prelude_replies ctx) (b_data ?b @ avail c @ later) body"
    using less.prems(1) by (auto simp: head_at_def)
  obtain n bs c' where rcv: "recv c ?sz = (n, bs, c')" by (cases "recv c ?sz")
  note ra = recv_avail [OF less.prems(3) sz rcv]
  define r1 where "r1 = received c' bs r"
  define r2 where "r2 = map_u (\<lambda>u. u\<lparr>u_bytes_received := u_bytes_received u + n,
                    u_buffer := (u_buffer u)\<lparr>b_last := b_last (u_buffer u) + nat n\<rparr>\<rparr>) r1"
  show ?case
  proof (cases "avail c = []")
    case True
    with ra(4) have n: "n = NGX_AGAIN" "bs = []" by simp_all
    have "header_loop E r = Inl r1"
      using ra(1) less.prems(2) rcv n by (subst header_loop.simps) (simp add: r1_def calm_def Let_def)
    moreover have "head_at r0 later body r1"
      using less.prems(1) True n
      by (simp add: r1_def received_def head_at_def under_way_def undecided_def buf_store_def mem_write_def b_data_def buf_ok_def)
    ultimately show ?thesis by (simp add: head_exit_def)
  next
    case False
    with ra(4) have n: "bs \<noteq> []" "n = int (length bs)" by auto
    have fit: "b_last ?b + length bs \<le> b_end ?b" using ra(3) cap by simp
    have b2: "u_buffer (r_u r2) = (buf_store ?b bs)\<lparr>b_last := b_last ?b + length bs\<rparr>"
      using n by (simp add: r2_def r1_def received_def buf_store_def)
    have c2: "u_conn (r_u r2) = Some c'" by (simp add: r2_def r1_def received_def)
    have uw2: "under_way r0 False r2" "u_read_handler (r_u r2) = RH_header" "r_ctx r2 = Some ctx"
      "r_tcp_nodelay_ok r2" "r_flush_ok r2"
      using uw rh ctx less.prems(1)
      by (simp_all add: r2_def r1_def received_def under_way_def undecided_def head_at_def)
    have buf2: "buf_ok (u_buffer (r_u r2))" using buf fit by (auto simp: b2 buf_ok_def buf_store_def)
    have "b_data (u_buffer (r_u r2)) = b_data ?b @ bs" unfolding b2 by (rule b_data_store [OF buf fit])
    then have head2: "good_head (prelude_replies ctx) (b_data (u_buffer (r_u r2)) @ avail c' @ later) body"
      using head ra(2) by simp
    obtain rc r3 where ph: "process_header E r2 = (rc, r3)" by fastforce
    from process_header_text [OF buf2 uw2(3) head2 ph] obtain j where 3: "buf_ok (u_buffer (r_u r3))"
      "keeps_buffer r2 r3" "r_ctx r3 = Some (ctx\<lparr>prelude_replies := j\<rparr>)"
      and res: "rc = NGX_AGAIN \<and> avail c' @ later \<noteq> []
          \<and> good_head j (b_data (u_buffer (r_u r3)) @ avail c' @ later) body
        \<or> rc = NGX_OK \<and> b_data (u_buffer (r_u r3)) @ avail c' @ later = body" by blast
    have "head_side (r_u r3) = head_side (r_u r2)"
      using process_header_frame [OF ph] by (simp add: head_frame_def)
    then have "u_start_null (r_u r3) = u_start_null (r_u r2)" by (rule head_sideD)
    moreover have "u_start_null (r_u r2) = u_start_null (r_u r)" by (simp add: r2_def r1_def received_def)
    ultimately have uw3: "under_way r0 False r3" "u_read_handler (r_u r3) = RH_header" "\<not> u_start_null (r_u r3)"
      using process_header_keeps [OF uw2(1) ph] uw2(2) less.prems(1) by (simp_all add: head_at_def)
    have cap3: "b_last (u_buffer (r_u r3)) + length (avail c' @ later) < b_end (u_buffer (r_u r3))"
      using 3(2) cap ra(2) fit by (simp add: keeps_buffer_def b2 buf_store_def)
    have c3: "u_conn (r_u r3) = Some c'" using 3(2) c2 by (simp add: keeps_buffer_def)
    have ok3: "r_tcp_nodelay_ok r3" "r_flush_ok r3" using 3(2) uw2 by (simp_all add: keeps_buffer_def)
    have eq: "header_loop E r = (if rc = NGX_AGAIN then header_loop E r3 else Inr (rc, r3))"
    proof -
      have "process_header E (map_u (\<lambda>u. u\<lparr>u_bytes_received := u_bytes_received u + n,
        u_buffer := (u_buffer u)\<lparr>b_last := b_last (u_buffer u) + nat n\<rparr>\<rparr>) r1) = (rc, r3)"
        using ph by (simp add: r2_def)
      then show ?thesis
        using less.prems(2) rcv n cap3
        by (subst header_loop.simps) (simp add: r1_def [symmetric] Let_def)
    qed
    have fresh3: "fresh_ctx (ctx\<lparr>prelude_replies := j\<rparr>)" using ctx(2) by (simp add: fresh_ctx_def)
    from res show ?thesis
    proof
      assume "rc = NGX_OK \<and> b_data (u_buffer (r_u r3)) @ avail c' @ later = body"
      moreover have "u_status (r_u r3) = ST_OK" if "rc = NGX_OK"
        using process_header_frame [OF ph] that by simp
      ultimately show ?thesis
        using 3 uw3 ok3 c3 ra(1) cap3 fresh_reads [OF 3(3) fresh3]
        by (simp add: eq head_exit_def room_def)
    next
      assume again: "rc = NGX_AGAIN \<and> avail c' @ later \<noteq> [] \<and> good_head j (b_data (u_buffer (r_u r3)) @ avail c' @ later) body"
      then have "head_at r0 (avail c' @ later) body r3"
        using 3 uw3 ok3 cap3 fresh3 by (simp add: head_at_def)
      moreover have "recv_size r3 < recv_size r"
        using recv_decreases [OF rcv] n c3 less.prems(2) by (simp add: recv_size_def)
      ultimately have "head_exit r0 later body (header_loop E r3)"
        using less.hyps c3 ra(1) by blast
      with again show ?thesis by (simp add: eq)
    qed
  qed
qed

section \<open>From the first byte to the verdict\<close>

text \<open>Before the first read event the reply buffer is not allocated.\<close>

definition head_ready :: "env \<Rightarrow> request \<Rightarrow> ngx_str \<Rightarrow> ngx_str \<Rightarrow> request \<Rightarrow> bool" where
  "head_ready E r0 fut body r \<longleftrightarrow>
     (if u_start_null (r_u r)
      then under_way r0 False r \<and> u_read_handler (r_u r) = RH_header \<and> fut \<noteq> []
        \<and> r_tcp_nodelay_ok r \<and> r_flush_ok r \<and> length fut < unat (lc_buffer_size (e_lc E))
        \<and> (\<exists>ctx. r_ctx r = Some ctx \<and> fresh_ctx ctx \<and> good_head (prelude_replies ctx) fut body)
      else head_at r0 fut body r)"

lemma alloc_buffer_ready:
  assumes "head_ready E r0 fut body r" "False \<notin> set (r_allocs r)" "u_conn (r_u r) = Some c"
  obtains r' where "alloc_buffer E r = (True, r')" "head_at r0 fut body r'" "u_conn (r_u r') = Some c"
proof (cases "u_start_null (r_u r)")
  case False
  with assms that show ?thesis by (simp add: alloc_buffer_def head_ready_def)
next
  case True
  obtain ok r1 where al: "alloc r = (ok, r1)" by fastforce
  have ok: "ok" using alloc_ok_no_failures [OF al assms(2)] by simp
  have sc: "same_core r r1" and ef: "r_effects r1 = r_effects r"
    using same_core_alloc [OF al] alloc_effects [OF al] by simp_all
  have rh: "u_read_handler (r_u r1) = u_read_handler (r_u r)" "r_u r1 = r_u r"
    using same_core_fields [OF sc] by simp_all
  let ?r = "map_u (\<lambda>u. u\<lparr>u_start_null := False,
                u_buffer := \<lparr>b_mem = replicate (unat (lc_buffer_size (e_lc E))) (CHR 0x00),
                             b_pos = 0, b_last = 0, b_last_buf = False\<rparr>\<rparr>) r1"
  have "alloc_buffer E r = (True, ?r)" using True al ok by (simp add: alloc_buffer_def)
  moreover have "head_at r0 fut body ?r"
    using assms(1) True sc ef
    by (auto simp: head_ready_def head_at_def under_way_def undecided_def same_core_def buf_ok_def b_data_def span_of_def)
  ultimately show ?thesis using that assms(3) rh by simp
qed

lemma read_header_text:
  assumes "head_ready E r0 (avail c @ later) body r" "u_conn (r_u r) = Some c" "calm c"
    "u_request_sent (r_u r)" "False \<notin> set (r_allocs r)"
  shows "head_ready E r0 later body (read_header_handler E r)
    \<or> (\<exists>xs. body = xs @ later \<and> body_result E r0 xs (read_header_handler E r))"
proof -
  obtain r1 where ab: "alloc_buffer E r = (True, r1)" and h1: "head_at r0 (avail c @ later) body r1"
    and c1: "u_conn (r_u r1) = Some c"
    using assms(1,5,2) by (rule alloc_buffer_ready)
  have ex: "head_exit r0 later body (header_loop E r1)" using h1 c1 assms(3) by (rule header_loop_text)
  show ?thesis
  proof (cases "header_loop E r1")
    case (Inl r2)
    then have "read_header_handler E r = r2"
      using assms(2-4) ab by (simp add: read_header_handler_def calm_def)
    moreover have "head_at r0 later body r2" using ex Inl by (simp add: head_exit_def)
    ultimately show ?thesis by (simp add: head_ready_def head_at_def)
  next
    case (Inr p)
    obtain rc r2 where p: "p = (rc, r2)" by (cases p)
    from ex Inr p obtain c2 where r2: "rc = NGX_OK" "under_way r0 False r2" "reads r2 = unread"
      "u_status (r_u r2) = ST_OK" "r_tcp_nodelay_ok r2" "r_flush_ok r2" "buf_ok (u_buffer (r_u r2))" "room r2"
      "u_conn (r_u r2) = Some c2" "calm c2" "b_data (u_buffer (r_u r2)) @ avail c2 @ later = body"
      by (auto simp: head_exit_def)
    let ?r3 = "map_u (\<lambda>u. u\<lparr>u_header_time := r_msec r2 - u_start_time u, u_length := -1\<rparr>) r2"
    have "body_result E r0 (b_data (u_buffer (r_u ?r3)) @ avail c2) (process_response E ?r3)"
      by (rule process_response_text)
        (use r2 in \<open>auto simp: under_way_def undecided_def in_body_def verdict_status_def reads_def canon_def Let_def room_def\<close>)
    moreover have "read_header_handler E r = process_response E ?r3"
      using assms(2-4) ab Inr p r2(1) by (simp add: read_header_handler_def calm_def)
    moreover have "body = (b_data (u_buffer (r_u r2)) @ avail c2) @ later" using r2(11) by simp
    ultimately show ?thesis by (intro disjI2 exI [of _ "b_data (u_buffer (r_u r2)) @ avail c2"]) simp
  qed
qed

text \<open>A read event: the state of the connection when it comes, the outcomes of allocations to come and the
  clock.  Once the connection is gone there are none.\<close>

type_synonym read_event = "conn \<times> bool list \<times> u64"

definition deliver :: "env \<Rightarrow> read_event \<Rightarrow> request \<Rightarrow> request" where
  "deliver E = (\<lambda>(c, as, now) r.
     if u_conn (r_u r) = None then r
     else case u_read_handler (r_u r) of
         RH_header \<Rightarrow> read_header_handler E (arrive c True as now r)
       | RH_body \<Rightarrow> read_body_handler E (arrive c True as now r)
       | RH_stock \<Rightarrow> r)"

lemma deliver_step: "deliver E ev r = r \<or> event_step N E r (deliver E ev r)"
  by (cases ev) (auto simp: deliver_def split: read_handler.split
      intro: event_step.read_header event_step.read_body)

definition calm_event :: "read_event \<Rightarrow> bool" where
  "calm_event = (\<lambda>(c, as, now). calm c \<and> False \<notin> set as)"

definition event_text :: "read_event \<Rightarrow> ngx_str" where
  "event_text = (\<lambda>(c, as, now). avail c)"

text \<open>The request has been concluded, with the values of the text or as broken by it.\<close>

definition decided :: "env \<Rightarrow> request \<Rightarrow> ngx_str \<Rightarrow> request \<Rightarrow> bool" where
  "decided E r0 body r \<longleftrightarrow> (\<exists>xs ys s. body = xs @ ys \<and>
     (run_bytes xs unread = Done s \<and> settled E r0 s r \<or> run_bytes xs unread = Fail s \<and> broken_off E r0 r))"

lemma decided_conn: "decided E r0 body r \<Longrightarrow> u_conn (r_u r) = None"
  unfolding decided_def settled_def broken_off_def concluded_def by blast

text \<open>How far the request is when \<open>fut\<close> of the text is still to come.\<close>

definition progress :: "env \<Rightarrow> request \<Rightarrow> ngx_str \<Rightarrow> ngx_str \<Rightarrow> request \<Rightarrow> bool" where
  "progress E r0 fut body r \<longleftrightarrow> head_ready E r0 fut body r
     \<or> (\<exists>xs. body = xs @ fut \<and> body_at r0 xs r \<and> room r)
     \<or> decided E r0 body r"

lemma body_result_progress:
  assumes "body = xs @ fut" "body_result E r0 xs r"
  shows "progress E r0 fut body r"
proof (cases "run_bytes xs unread")
  case (Next s)
  with assms show ?thesis by (auto simp: progress_def body_result_def)
next
  case (Done s)
  with assms have "settled E r0 s r" by (simp add: body_result_def)
  with Done assms(1) show ?thesis unfolding progress_def decided_def by blast
next
  case (Fail s)
  with assms have "broken_off E r0 r" by (simp add: body_result_def)
  with Fail assms(1) show ?thesis unfolding progress_def decided_def by blast
qed

lemma head_ready_arrive: "head_ready E r0 fut body r \<Longrightarrow> head_ready E r0 fut body (arrive c True as now r)"
  by (simp add: head_ready_def head_at_def arrive_def under_way_def undecided_def split: if_splits)

lemma body_at_arrive:
  "body_at r0 xs r \<Longrightarrow> body_at r0 xs (arrive c True as now r)" "room (arrive c True as now r) = room r"
  by (auto simp: body_at_def arrive_def under_way_def undecided_def in_body_def reads_def canon_def Let_def room_def)

lemma deliver_progress:
  assumes "progress E r0 (event_text ev @ later) body r" "calm_event ev"
  shows "progress E r0 later body (deliver E ev r)"
proof -
  obtain c as now where ev: "ev = (c, as, now)" by (cases ev)
  then have calm: "calm c" "False \<notin> set as" and et: "event_text ev = avail c"
    using assms(2) by (simp_all add: calm_event_def event_text_def)
  let ?r = "arrive c True as now r"
  have r: "u_conn (r_u ?r) = Some c" "u_request_sent (r_u ?r)" "r_allocs ?r = as" by (simp_all add: arrive_def)
  consider "head_ready E r0 (avail c @ later) body r"
    | xs where "body = xs @ avail c @ later" "body_at r0 xs r" "room r"
    | "decided E r0 body r"
    using assms(1) unfolding progress_def et by fastforce
  then show ?thesis
  proof cases
    case 1
    then have "head_ready E r0 (avail c @ later) body ?r" by (rule head_ready_arrive)
    from read_header_text [OF this r(1) calm(1) r(2)] calm(2) r(3)
    have "head_ready E r0 later body (read_header_handler E ?r)
        \<or> (\<exists>xs. body = xs @ later \<and> body_result E r0 xs (read_header_handler E ?r))" by simp
    then have "progress E r0 later body (read_header_handler E ?r)"
    proof
      assume "head_ready E r0 later body (read_header_handler E ?r)"
      then show ?thesis by (simp add: progress_def)
    qed (blast intro: body_result_progress)
    moreover have "u_conn (r_u r) \<noteq> None" "u_read_handler (r_u r) = RH_header"
      using 1 by (auto simp: head_ready_def head_at_def under_way_def split: if_splits)
    ultimately show ?thesis by (auto simp: ev deliver_def)
  next
    case (2 xs)
    have "body_result E r0 (xs @ avail c) (read_body_handler E ?r)"
      using 2(2,3) r(1) calm(1) by (intro read_body_text) (simp_all add: body_at_arrive)
    then have "progress E r0 later body (read_body_handler E ?r)"
      using 2(1) by (intro body_result_progress) simp_all
    moreover have "u_conn (r_u r) \<noteq> None" "u_read_handler (r_u r) = RH_body"
      using 2(2) by (auto simp: body_at_def under_way_def)
    ultimately show ?thesis by (auto simp: ev deliver_def)
  next
    case 3
    then have "deliver E ev r = r" by (simp add: ev deliver_def decided_conn)
    with 3 show ?thesis by (simp add: progress_def)
  qed
qed

lemma delivery_progress:
  assumes "progress E r0 (concat (map event_text evs) @ later) body r" "list_all calm_event evs"
  shows "progress E r0 later body (fold (deliver E) evs r)"
  using assms
proof (induction evs arbitrary: r)
  case (Cons ev evs)
  then have "progress E r0 (concat (map event_text evs) @ later) body (deliver E ev r)"
    by (intro deliver_progress) simp_all
  with Cons show ?case by simp
qed simp

text \<open>A text the reference parser accepts leads from the unread state to its values.\<close>

lemma run_ref_reply:
  assumes "ref_reply body = Some (st, lim, rem, ra, rst)"
  obtains p where "run_bytes body unread = Done (p, zero_ctx\<lparr>limit := of_nat lim, remaining := of_nat rem,
     reset := of_nat rst, retry_after := of_int ra\<rparr>, sample_upstream\<lparr>u_status := st\<rparr>)"
proof -
  let ?c = "zero_ctx\<lparr>retry_after := -1\<rparr>" and ?u = "sample_upstream\<lparr>u_status := ST_OK\<rparr>"
  have "fresh_ctx ?c" by (simp add: fresh_ctx_def zero_ctx_def)
  from accepts_ref_reply [OF this, of body ?u] assms obtain p where
    "accepts body (sw_start, ?c, ?u) = Some (p, set_values (st, lim, rem, ra, rst) (?c, ?u))"
    by (auto simp: set_values_def)
  then show thesis
    using that by (auto simp: accepts_def unread_def set_values_def zero_ctx_def split: outcome.splits)
qed

lemma settled_values:
  assumes "settled E r0 (p, zero_ctx\<lparr>limit := l, remaining := m, reset := k, retry_after := ra\<rparr>,
     sample_upstream\<lparr>u_status := st\<rparr>) r"
  shows "concluded E r0 r \<and> u_status (r_u r) = st \<and> (\<exists>ctx. r_ctx r = Some ctx \<and> reply_parsed ctx
     \<and> limit ctx = l \<and> remaining ctx = m \<and> reset ctx = k \<and> retry_after ctx = ra)"
proof -
  obtain ctx q where ctx: "concluded E r0 r" "r_ctx r = Some ctx" "reply_parsed ctx"
    and eq: "(p, zero_ctx\<lparr>limit := l, remaining := m, reset := k, retry_after := ra\<rparr>,
     sample_upstream\<lparr>u_status := st\<rparr>) = canon (q, ctx, r_u r)"
    using assms by (auto simp: settled_def)
  from eq have c: "zero_ctx\<lparr>limit := l, remaining := m, reset := k, retry_after := ra\<rparr>
      = zero_ctx\<lparr>limit := limit ctx, remaining := remaining ctx, reset := reset ctx, retry_after := retry_after ctx\<rparr>"
    and u: "sample_upstream\<lparr>u_status := st\<rparr> = sample_upstream\<lparr>u_status := u_status (r_u r)\<rparr>"
    by (simp_all add: canon_def)
  show ?thesis
    using ctx arg_cong [OF c, of limit] arg_cong [OF c, of remaining] arg_cong [OF c, of reset]
      arg_cong [OF c, of retry_after] arg_cong [OF u, of u_status] by simp
qed

lemma fold_deliver_steps: "(event_step N E)\<^sup>*\<^sup>* r (fold (deliver E) evs r)"
proof (induction evs arbitrary: r)
  case (Cons ev evs)
  have "(event_step N E)\<^sup>*\<^sup>* r (deliver E ev r)" using deliver_step [of E ev r N] by auto
  with Cons.IH [of "deliver E ev r"] show ?case by simp
qed simp

text \<open>C3: A complete reply is always acted on.  If Redis answers the AUTH/SELECT commands with one \<open>+\<close> line
  each and the script call with a reply the reference parser accepts, and the whole text is shorter
  than \<open>ratelimit_buffer_size\<close>, then however the network cuts the text into pieces and however many
  read events deliver it, the request has been concluded after the last of them: the counters in the
  context are those of the reply, and the re-entered handler lets the request pass for status 0 and
  rejects it with the configured status for 1.\<close>

theorem complete_reply_concludes:
  assumes "waiting r0 r" "u_read_handler (r_u r) = RH_header" "u_start_null (r_u r)"
    and "r_ctx r = Some ctx" "fresh_ctx ctx" "r_tcp_nodelay_ok r" "r_flush_ok r"
    and "list_all calm_event evs"
    and "concat (map event_text evs) = concat (map (\<lambda>l. CHR ''+'' # l @ [LF]) lines) @ CHR ''*'' # body"
    and "length lines = prelude_replies ctx" "\<forall>l \<in> set lines. LF \<notin> set l"
    and "length (concat (map event_text evs)) < unat (lc_buffer_size (e_lc E))"
    and "ref_reply body = Some (st, lim, rem, ra, rst)" and "active (e_lc E)"
  shows "let r' = fold (deliver E) evs r in
    (event_step N E)\<^sup>*\<^sup>* r r' \<and> concluded E r0 r' \<and> u_status (r_u r') = st
    \<and> (\<exists>ctx'. r_ctx r' = Some ctx' \<and> reply_parsed ctx' \<and> limit ctx' = of_nat lim \<and> remaining ctx' = of_nat rem
         \<and> reset ctx' = of_nat rst \<and> retry_after ctx' = of_int ra)
    \<and> fst (handler N E r') = (if st = ST_OK then NGX_DECLINED else sint (lc_status_code (e_lc E)))"
proof -
  let ?t = "concat (map event_text evs)" and ?r = "fold (deliver E) evs r"
  have "prelude_spec (prelude_replies ctx) ?t = (NGX_OK, 0, CHR ''*'' # body)"
    unfolding prelude_spec_OK_iff using assms(9-11) by auto
  then have "head_ready E r0 ?t body r"
    using assms(1-7,9,12) by (auto simp: head_ready_def waiting_def good_head_def)
  then have "progress E r0 (?t @ []) body r" by (simp add: progress_def)
  from delivery_progress [OF this assms(8)] have p: "progress E r0 [] body ?r" .
  obtain q where run: "run_bytes body unread = Done (q, zero_ctx\<lparr>limit := of_nat lim, remaining := of_nat rem,
     reset := of_nat rst, retry_after := of_int ra\<rparr>, sample_upstream\<lparr>u_status := st\<rparr>)" (is "_ = Done ?s")
    using assms(13) by (rule run_ref_reply)
  have "\<not> head_ready E r0 [] body ?r" by (simp add: head_ready_def head_at_def)
  moreover have "\<not> (\<exists>xs. body = xs @ [] \<and> body_at r0 xs ?r \<and> room ?r)" using run by (auto simp: body_at_def)
  ultimately obtain xs ys s where xs: "body = xs @ ys" and
    d: "run_bytes xs unread = Done s \<and> settled E r0 s ?r \<or> run_bytes xs unread = Fail s \<and> broken_off E r0 ?r"
    using p unfolding progress_def decided_def by blast
  have "settled E r0 ?s ?r"
    using d run unfolding xs run_bytes_append by (elim disjE) auto
  then have v: "concluded E r0 ?r \<and> u_status (r_u ?r) = st \<and> (\<exists>ctx. r_ctx ?r = Some ctx \<and> reply_parsed ctx
     \<and> limit ctx = of_nat lim \<and> remaining ctx = of_nat rem \<and> reset ctx = of_nat rst \<and> retry_after ctx = of_int ra)"
    by (rule settled_values)
  then obtain ctx' where ctx': "r_ctx ?r = Some ctx'" "reply_parsed ctx'" by blast
  have "fst (handler N E ?r) = deserved (e_lc E) (reply_parsed ctx') (u_status (r_u ?r))"
    using conjunct1 [OF v] assms(14) ctx'(1) by (rule handler_concluded)
  with v ctx' fold_deliver_steps show ?thesis by (auto simp: Let_def deserved_def)
qed

text \<open>A reply to the sample request in two pieces, with a read event for each.\<close>

definition sample_event :: "ngx_str \<Rightarrow> read_event" where
  "sample_event bs = (sample_conn\<lparr>c_recv := [Recv_data bs False]\<rparr>, [], 7)"

lemma sample_event_text [simp]: "event_text (sample_event bs) = bs"
  by (simp add: event_text_def sample_event_def avail_def)

lemma sample_event_calm [simp]: "bs \<noteq> [] \<Longrightarrow> calm_event (sample_event bs)"
  by (simp add: calm_event_def sample_event_def calm_def avail_def sample_conn_def)

lemma sample_request_facts:
  "u_read_handler (r_u sample_request) = RH_header" "u_start_null (r_u sample_request)"
  "r_ctx sample_request = Some sample_ctx" "r_tcp_nodelay_ok sample_request" "r_flush_ok sample_request"
  "prelude_replies sample_ctx = 0" "unat (lc_buffer_size (e_lc sample_env)) = 4096"
  "lc_status_code (e_lc sample_env) = 429"
  by (simp_all add: sample_request_def sample_upstream_def sample_ctx_def zero_ctx_def sample_env_def sample_lc_def)

theorem complete_reply_concludes_witness:
  "\<exists>a b. a \<noteq> [] \<and> b \<noteq> [] \<and> fst (handler sample_module sample_env
     (fold (deliver sample_env) [sample_event a, sample_event b] sample_request)) = 429"
proof -
  let ?body = "reply_text [1, 15, 0, 42, 60]"
  let ?evs = "[sample_event ''*'', sample_event ?body]"
  have ref: "ref_reply ?body = Some (ST_TOO_MANY_REQUESTS, 15, 0, 42, 60)"
    using ref_reply_text [of 1 15 0 42 60] by simp
  have len: "length ?body < 4000" by (simp add: reply_text_def resp_int_def dec.simps)
  have ne: "?body \<noteq> []" by (simp add: reply_text_def)
  have calm: "list_all calm_event ?evs" using ne by simp
  have wire: "concat (map event_text ?evs) = concat (map (\<lambda>l. CHR ''+'' # l @ [LF]) []) @ CHR ''*'' # ?body" by simp
  note f = sample_request_facts
  from complete_reply_concludes [OF sample_waiting f(1-3) fresh_sample_ctx f(4,5) calm wire _ _ _ ref sample_active(1),
      of sample_module] len
  have "fst (handler sample_module sample_env (fold (deliver sample_env) ?evs sample_request)) = 429"
    by (simp add: f Let_def)
  with ne show ?thesis by blast
qed

section \<open>A buffer that is filled exactly\<close>

text \<open>A request in the body phase whose reply buffer is full.\<close>

definition stuck :: "request \<Rightarrow> bool" where
  "stuck r \<longleftrightarrow> u_conn (r_u r) \<noteq> None \<and> u_read_handler (r_u r) = RH_body \<and> u_length (r_u r) = -1
     \<and> b_last (u_buffer (r_u r)) = b_end (u_buffer (r_u r))"

lemma stuck_event:
  assumes "stuck r" "\<not> c_rd_timedout c" "c_rd_event_ok c"
  shows "deliver E (c, as, now) r = set_rd_timer (if c_rd_active c \<and> \<not> c_rd_ready c then True
     else False) (arrive c True as now r) "
proof -
  let ?r = "arrive c True as now r"
  have r: "u_conn (r_u ?r) = Some c" "u_length (r_u ?r) = -1"
    "b_last (u_buffer (r_u ?r)) = b_end (u_buffer (r_u ?r))"
    using assms(1) by (simp_all add: stuck_def arrive_def)
  then have "body_loop E ?r False = Broke ?r" by (subst body_loop.simps) simp
  moreover have "set_rd_timer False ?r = ?r" if "\<not> c_rd_timer_set c"
    using that by (simp add: set_rd_timer_def arrive_def)
  ultimately have "read_body_handler E ?r = set_rd_timer (if c_rd_active c \<and> \<not> c_rd_ready c then True else False) ?r"
    using assms(2,3) r by (auto simp: read_body_handler_def process_redis_response_def)
  with assms(1) show ?thesis by (auto simp: deliver_def stuck_def)
qed

lemma stuck_stays:
  assumes "stuck r" "\<not> c_rd_timedout c" "c_rd_event_ok c"
  shows "stuck (deliver E (c, as, now) r)" "r_ctx (deliver E (c, as, now) r) = r_ctx r"
    "r_effects (deliver E (c, as, now) r) = r_effects r"
    "map_option c_recv (u_conn (r_u (deliver E (c, as, now) r))) = Some (c_recv c)"
    "map_option c_rd_timer_set (u_conn (r_u (deliver E (c, as, now) r))) = Some (c_rd_active c \<and> \<not> c_rd_ready c)"
  using assms(1) unfolding stuck_event [OF assms] by (auto simp: stuck_def set_rd_timer_def arrive_def)

text \<open>C23: The way a round trip gets stuck.  Once the head and a first part of the reply have filled the
  reply buffer to its last byte, the body handler neither reads nor rewinds.  Whatever read events
  follow, more data, an error or the end of the connection, the context and the buffer stay as they
  are, nothing is read from the socket and no verdict is given; after an event that finds data ready
  the read timer is off, so no timeout will end it either.\<close>

theorem full_buffer_stuck:
  assumes "stuck r" "\<forall>(c, as, now) \<in> set evs. \<not> c_rd_timedout c \<and> c_rd_event_ok c"
  shows "let r' = fold (deliver E) evs r in
    stuck r' \<and> r_ctx r' = r_ctx r \<and> r_effects r' = r_effects r
    \<and> (\<forall>c as now. evs \<noteq> [] \<and> last evs = (c, as, now) \<longrightarrow>
         map_option c_recv (u_conn (r_u r')) = Some (c_recv c)
         \<and> map_option c_rd_timer_set (u_conn (r_u r')) = Some (c_rd_active c \<and> \<not> c_rd_ready c))"
  using assms
proof (induction evs rule: rev_induct)
  case (snoc ev evs)
  obtain c as now where ev: "ev = (c, as, now)" by (cases ev)
  let ?r = "fold (deliver E) evs r"
  have "stuck ?r \<and> r_ctx ?r = r_ctx r \<and> r_effects ?r = r_effects r" using snoc by (simp add: Let_def)
  with stuck_stays [of ?r c E as now] snoc.prems(2) ev show ?case by (simp add: Let_def)
qed simp

text \<open>It happens with \<open>ratelimit_buffer_size 8\<close>: the type byte, the element count and the status fill the
  buffer, and the rest of the reply is left in the socket.\<close>

definition tiny_env :: env where
  "tiny_env = sample_env\<lparr>e_lc := sample_lc\<lparr>lc_buffer_size := 8\<rparr>\<rparr>"

definition whole_reply :: conn where
  "whole_reply = sample_conn\<lparr>c_recv := [Recv_data (''*'' @ reply_text [0, 15, 9, -1, 60]) True]\<rparr>"

lemma tiny_stuck: "stuck (deliver tiny_env (whole_reply, [], 7) sample_request)"
  by code_simp

theorem full_buffer_stuck_witness:
  "stuck (fold (deliver tiny_env) [(whole_reply, [], 7), (sample_conn\<lparr>c_recv := [Recv_eof]\<rparr>, [], 8)] sample_request)"
  using full_buffer_stuck [OF tiny_stuck, of "[(sample_conn\<lparr>c_recv := [Recv_eof]\<rparr>, [], 8)]" tiny_env]
  by (simp add: Let_def sample_conn_def)

end
