(* ===== verification/RL_Fallback.thy ===== *)
theory RL_Fallback
  imports RL_System
begin

text \<open>
  The EVAL fallback over a whole round trip: once the latch \<open>eval_fallback\<close> is set, whatever events
  follow, it stays set, the request frame is never built again, and reading a reply never writes.
\<close>

section \<open>What every handler keeps once the latch is set\<close>

definition latch_kept :: "request \<Rightarrow> request \<Rightarrow> bool" where
  "latch_kept r r' \<longleftrightarrow> (fallback_on r \<longrightarrow> fallback_on r'
     \<and> u_request_bufs (r_u r') = u_request_bufs (r_u r) \<and> adds (\<lambda>e. \<not> is_sent e) r r')"

lemma latch_kept_refl [simp]: "latch_kept r r"
  by (simp add: latch_kept_def adds_refl)

lemma latch_kept_trans [trans]: "latch_kept r r' \<Longrightarrow> latch_kept r' r'' \<Longrightarrow> latch_kept r r''"
  by (auto simp: latch_kept_def intro: adds_trans)

lemma latch_kept_upd:
  assumes "r_ctx r' = r_ctx r" "u_request_bufs (r_u r') = u_request_bufs (r_u r)" "r_effects r' = r_effects r"
  shows "latch_kept r r'"
  using assms by (simp add: latch_kept_def fallback_on_def adds_refl)

lemma latch_kept_emit [simp]: "\<not> is_sent e \<Longrightarrow> latch_kept r (emit e r)"
  by (auto simp: latch_kept_def fallback_on_def adds_def) (simp_all add: emit_def)

lemma latch_kept_emit_trans: "latch_kept r r' \<Longrightarrow> \<not> is_sent e \<Longrightarrow> latch_kept r (emit e r')"
  by (rule latch_kept_trans [OF _ latch_kept_emit])

lemma latch_kept_set_u:
  "u_request_bufs u = u_request_bufs (r_u r) \<Longrightarrow> latch_kept r (r\<lparr>r_u := u\<rparr>)"
  by (rule latch_kept_upd) simp_all

lemma latch_kept_alloc: "alloc r = (ok, r') \<Longrightarrow> latch_kept r r'"
  using same_core_alloc [of r ok r'] alloc_effects [of r ok r']
  by (intro latch_kept_upd) (simp_all add: same_core_def)

lemma is_sent_simps [simp]:
  "\<not> is_sent (Log_error s)" "\<not> is_sent (Finalize_request rc)" "\<not> is_sent Run_phases" "\<not> is_sent Flush_client"
  "\<not> is_sent Resolve_done" "\<not> is_sent Free_peer" "\<not> is_sent Destroy_conn_pool" "\<not> is_sent Close_connection"
  by (simp_all add: is_sent_def)

subsection \<open>Finalisation\<close>

lemma finalize_request_latch: "fallback_on (finalize_request E r) = fallback_on r"
  by (cases "r_ctx r") (simp_all add: finalize_request_fields fallback_on_def, simp add: finalize_request_def)

lemma latch_kept_finalize_request: "latch_kept r (finalize_request E r)"
proof -
  have "r_effects (finalize_request E r) = r_effects r"
    by (cases "r_ctx r") (simp_all add: finalize_request_fields, simp add: finalize_request_def)
  then show ?thesis by (simp add: latch_kept_def finalize_request_latch adds_refl)
qed

lemma latch_kept_detached: "latch_kept r (detached r)"
proof -
  have "u_request_bufs (account t u) = u_request_bufs u" for t u
    by (auto simp: account_def Let_def split: option.split prod.split)
  then show ?thesis
    by (auto simp: latch_kept_def fallback_on_def adds_def detached_def Let_def emit_def)
qed

lemma latch_kept_release_peer: "latch_kept r (release_peer P r)"
  by (auto simp: latch_kept_def fallback_on_def adds_def release_peer_def emit_def Let_def)

lemma latch_kept_close_peer: "latch_kept r (close_peer r)"
  by (auto simp: latch_kept_def fallback_on_def adds_def close_peer_def emit_def Let_def split: option.splits)

lemma latch_kept_torn_down: "latch_kept r (torn_down E r)"
proof -
  let ?r = "close_peer (release_peer (e_p E) (finalize_request E (detached r)))"
  have "latch_kept r ?r"
    by (rule latch_kept_trans [OF latch_kept_trans [OF latch_kept_trans
          [OF latch_kept_detached latch_kept_finalize_request] latch_kept_release_peer] latch_kept_close_peer])
  also have "latch_kept ?r (torn_down E r)"
    by (rule latch_kept_upd) (simp_all add: torn_down_def)
  finally show ?thesis .
qed

lemma latch_kept_finalize:
  assumes "rc \<noteq> NGX_DECLINED"
  shows "latch_kept r (finalize_upstream_request E r rc)"
proof (cases "u_cleanup (r_u r)")
  case False
  then show ?thesis by (simp add: finalize_upstream_request_def)
next
  case True
  let ?t = "torn_down E r"
  define t where "t = (if rc \<noteq> NGX_OK \<and> rc \<noteq> NGX_DONE
    then map_u (\<lambda>u. u\<lparr>u_status := if rc = NGX_ERROR then of_int HTTP_INTERNAL_SERVER_ERROR else of_int rc\<rparr>) ?t
    else ?t)"
  have "latch_kept ?t t" by (rule latch_kept_upd) (simp_all add: t_def)
  with latch_kept_torn_down have "latch_kept r t" by (rule latch_kept_trans)
  then have "latch_kept r (emit Run_phases (emit (Finalize_request k) t))" for k
    by (simp add: latch_kept_emit_trans)
  then show ?thesis
    unfolding finalize_upstream_request_eq [OF True assms] t_def by (auto split: if_splits)
qed

lemma latch_kept_finalize_trans [intro]:
  "latch_kept r r' \<Longrightarrow> rc \<noteq> NGX_DECLINED \<Longrightarrow> latch_kept r (finalize_upstream_request E r' rc)"
  using latch_kept_finalize latch_kept_trans by blast

subsection \<open>The body of the reply\<close>

lemma latch_kept_input_filter:
  assumes "input_filter r n = (rc, r')"
  shows "latch_kept r r'"
proof (cases "r_ctx r")
  case None
  with assms show ?thesis by (simp add: input_filter_def)
next
  case (Some ctx)
  obtain c' u' where pr: "process_reply ctx (r_u r) n = (rc, c', u')" and r': "r' = r\<lparr>r_ctx := Some c', r_u := u'\<rparr>"
    using assms Some by (auto simp: input_filter_def split: prod.splits)
  have "eval_fallback c' = eval_fallback ctx"
    using arg_cong [OF process_reply_frame(2) [OF pr], of eval_fallback] by (simp add: c_rest_def)
  moreover have "u_request_bufs u' = u_request_bufs (r_u r)"
    using u_restD(3) [OF process_reply_frame(3) [OF pr]] .
  ultimately show ?thesis by (simp add: latch_kept_def fallback_on_def Some r' adds_refl)
qed

lemma latch_kept_received [simp]: "latch_kept r (received c bs r)"
  by (rule latch_kept_upd) (simp_all add: received_def)

lemma latch_kept_body_loop:
  "(case body_loop E r do_write of Returned r' \<Rightarrow> latch_kept r r' | Broke r' \<Rightarrow> latch_kept r r')"
proof (induction "recv_size r" arbitrary: r do_write rule: less_induct)
  case less
  show ?case
  proof (cases "u_conn (r_u r)")
    case None
    then show ?thesis by (subst body_loop.simps) simp
  next
    case c: (Some c)
    let ?done = "do_write \<and> (u_out_bufs (r_u r) \<or> u_busy_bufs (r_u r) \<or> u_length (r_u r) = 0 \<or> c_rd_eof c \<or> c_rd_error c)"
    show ?thesis
    proof (cases ?done)
      case True
      have "latch_kept r (finalize_upstream_request E (emit (Log_error m) r) HTTP_BAD_GATEWAY)" for m
        by (rule latch_kept_finalize_trans) simp_all
      with True c show ?thesis
        by (subst body_loop.simps) (auto simp: latch_kept_finalize)
    next
      case False
      define r1 where "r1 = (if do_write then map_u (\<lambda>u. u\<lparr>u_buffer := buf_rewind (u_buffer u)\<rparr>) r else r)"
      have 1: "latch_kept r r1" by (rule latch_kept_upd) (simp_all add: r1_def)
      let ?sz = "b_end (u_buffer (r_u r1)) - b_last (u_buffer (r_u r1))"
      show ?thesis
      proof (cases "?sz \<noteq> 0 \<and> c_rd_ready c")
        case no: False
        with False c 1 show ?thesis
          by (subst body_loop.simps) (auto simp: r1_def [symmetric] Let_def)
      next
        case rd: True
        obtain n bs c' where rcv: "recv c ?sz = (n, bs, c')" by (cases "recv c ?sz")
        define r2 where "r2 = received c' bs r1"
        have 2: "latch_kept r r2" using 1 latch_kept_received unfolding r2_def by (rule latch_kept_trans)
        define r3 where "r3 = map_u (\<lambda>u. u\<lparr>u_bytes_received := u_bytes_received u + n,
            u_response_length := u_response_length u + n\<rparr>) r2"
        have "latch_kept r2 r3" by (rule latch_kept_upd) (simp_all add: r3_def)
        with 2 have 3: "latch_kept r r3" by (rule latch_kept_trans)
        have eq: "body_loop E r do_write =
            (if n = NGX_AGAIN then Broke r2
             else if 0 < n then
               (case input_filter r3 (nat n) of (rc, r4) \<Rightarrow>
                  if rc = NGX_ERROR then Returned (finalize_upstream_request E r4 NGX_ERROR)
                  else body_loop E r4 True)
             else body_loop E r2 True)"
          using c False rd rcv unfolding r3_def r2_def r1_def
          by (subst body_loop.simps) (auto simp: Let_def)
        have step: "case body_loop E q True of Returned r' \<Rightarrow> latch_kept r r' | Broke r' \<Rightarrow> latch_kept r r'"
          if "n \<noteq> NGX_AGAIN" "u_conn (r_u q) = Some c'" "latch_kept r q" for q
        proof -
          have "recv_size q < recv_size r"
            using recv_decreases [OF rcv that(1)] rd c that(2) by (simp add: recv_size_def)
          from less.hyps [OF this, of True] that(3) show ?thesis
            by (auto split: loop_result.splits intro: latch_kept_trans)
        qed
        show ?thesis
        proof (cases "0 < n")
          case True
          obtain rc r4 where fl: "input_filter r3 (nat n) = (rc, r4)" by fastforce
          have 4: "latch_kept r r4" using 3 latch_kept_input_filter [OF fl] by (rule latch_kept_trans)
          have "u_conn (r_u r4) = Some c'"
            using u_restD(1) [OF input_filter_u_rest [OF fl]] by (simp add: r3_def r2_def received_def)
          with step [OF _ this 4] 4 True show ?thesis
            by (auto simp: eq fl intro: latch_kept_finalize_trans)
        next
          case False
          have "u_conn (r_u r2) = Some c'" by (simp add: r2_def received_def)
          with step [OF _ this 2] 2 False show ?thesis by (auto simp: eq)
        qed
      qed
    qed
  qed
qed

lemma latch_kept_timer: "latch_kept r (set_rd_timer on r)"
  by (rule latch_kept_upd) (simp_all add: set_rd_timer_def)

lemma latch_kept_process_redis: "latch_kept r (process_redis_response E r do_write)"
proof (cases "body_loop E r (do_write \<or> u_length (r_u r) = 0)")
  case (Returned r')
  with latch_kept_body_loop [of r E "do_write \<or> u_length (r_u r) = 0"] show ?thesis
    by (simp add: process_redis_response_def)
next
  case (Broke r')
  then have k: "latch_kept r r'" using latch_kept_body_loop [of r E "do_write \<or> u_length (r_u r) = 0"] by simp
  have "latch_kept r (set_rd_timer on r')" for on using k latch_kept_timer by (rule latch_kept_trans)
  with k Broke show ?thesis
    by (simp add: process_redis_response_def latch_kept_finalize_trans split: option.split)
qed

lemma latch_kept_read_body: "latch_kept r (read_body_handler E r)"
  by (simp add: read_body_handler_def latch_kept_process_redis latch_kept_finalize_trans split: option.split)

lemma latch_kept_read_body_trans: "latch_kept r r' \<Longrightarrow> latch_kept r (read_body_handler E r')"
  by (rule latch_kept_trans [OF _ latch_kept_read_body])

lemma latch_kept_process_response: "latch_kept r (process_response E r)"
proof -
  let ?r1 = "map_u (\<lambda>u. u\<lparr>u_read_handler := RH_body, u_write_handler := WH_dummy\<rparr>) r"
  let ?b = "u_buffer (r_u ?r1)" let ?n = "b_last ?b - b_pos ?b"
  let ?r2 = "map_u (\<lambda>u. u\<lparr>u_buffer := ?b\<lparr>b_last := b_pos ?b\<rparr>,
                          u_response_length := u_response_length u + int ?n\<rparr>) ?r1"
  let ?r3 = "map_u (\<lambda>u. u\<lparr>u_buffer := buf_rewind ?b\<rparr>) ?r1"
  have k: "latch_kept r ?r1" "latch_kept r ?r2" "latch_kept r ?r3"
    by (rule latch_kept_upd; simp)+
  have flush: "latch_kept r (emit Flush_client ?r3)" using k(3) by (rule latch_kept_emit_trans) simp
  obtain rc r4 where fl: "input_filter ?r2 ?n = (rc, r4)" by fastforce
  have 4: "latch_kept r r4" using k(2) latch_kept_input_filter [OF fl] by (rule latch_kept_trans)
  have eq: "process_response E r =
      (if filter_init ?r1 = NGX_ERROR \<or> \<not> r_tcp_nodelay_ok ?r1 then finalize_upstream_request E ?r1 NGX_ERROR
       else if ?n \<noteq> 0 then
         (if rc = NGX_ERROR then finalize_upstream_request E r4 NGX_ERROR
          else if u_length (r_u r4) = 0 then finalize_upstream_request E r4 NGX_DONE
          else read_body_handler E r4)
       else if \<not> r_flush_ok (emit Flush_client ?r3) then finalize_upstream_request E (emit Flush_client ?r3) NGX_ERROR
       else read_body_handler E (emit Flush_client ?r3))"
    using fl by (simp only: process_response_def Let_def prod.case) simp
  show ?thesis
    using k(1) flush 4 unfolding eq by (simp add: latch_kept_finalize_trans latch_kept_read_body_trans)
qed

subsection \<open>The head of the reply\<close>

lemma same_core_bufs: "same_core r r' \<Longrightarrow> u_request_bufs (r_u r') = u_request_bufs (r_u r)"
  by (simp add: same_core_def)

lemma consume_preludes_bufs:
  "consume_preludes k r = (rc, r') \<Longrightarrow> u_request_bufs (r_u r') = u_request_bufs (r_u r)"
proof (induction k arbitrary: r)
  case (Suc k)
  obtain prc r1 where c: "consume_prelude_reply r = (prc, r1)" by fastforce
  have "u_request_bufs (r_u r1) = u_request_bufs (r_u r)"
    using c same_core_bufs [OF same_core_log_reply [of r]]
    by (auto simp: consume_prelude_reply_def Let_def split: if_splits)
  with Suc.prems Suc.IH [of "r1\<lparr>r_ctx := map_option (\<lambda>ctx. ctx\<lparr>prelude_replies := k\<rparr>) (r_ctx r1)\<rparr>"] c
  show ?case by (auto split: if_splits)
qed simp

lemma process_reply_head_bufs:
  assumes "process_reply_head E r = (rc, r')" "fallback_on r"
  shows "u_request_bufs (r_u r') = u_request_bufs (r_u r)"
proof -
  have fb: "(case r_ctx r of None \<Rightarrow> True | Some ctx \<Rightarrow> eval_fallback ctx) = True"
    using assms(2) by (auto simp: fallback_on_def split: option.splits)
  have san: "u_request_bufs (r_u r1) = u_request_bufs (r_u r)" if "sanitize_log_str r src = (s, r1)" for src s r1
    using same_core_sanitize [OF that] by (rule same_core_bufs)
  show ?thesis
    using assms(1) san same_core_bufs [OF same_core_log_reply [of r]]
    unfolding process_reply_head_def Let_def fb
    by (auto simp: emit_def split: if_splits prod.splits)
qed

lemma latch_kept_process_header:
  assumes "process_header E r = (rc, r')"
  shows "latch_kept r r'"
proof (cases "fallback_on r")
  case True
  then obtain ctx where ctx: "r_ctx r = Some ctx" by (auto simp: fallback_on_def split: option.splits)
  obtain rc1 r1 where c: "consume_preludes (prelude_replies ctx) r = (rc1, r1)" by fastforce
  have "fallback_on r1" using consume_preludes_adds [OF c] True by simp
  then have "u_request_bufs (r_u r') = u_request_bufs (r_u r)"
    using assms ctx c consume_preludes_bufs [OF c] process_reply_head_bufs [of E r1 rc r']
    by (auto simp: process_header_def split: if_splits)
  moreover have "adds safe_log r r' \<and> fallback_on r'"
    using process_header_adds [OF assms] True by blast
  ultimately show ?thesis
    by (auto simp: latch_kept_def safe_log_def is_sent_def split: effect.splits elim!: adds_mono)
qed (simp add: latch_kept_def)

lemma latch_kept_header_loop:
  "(case header_loop E r of Inl r' \<Rightarrow> latch_kept r r' | Inr (rc, r') \<Rightarrow> latch_kept r r')"
proof (induction "recv_size r" arbitrary: r rule: less_induct)
  case less
  show ?case
  proof (cases "u_conn (r_u r)")
    case None
    then show ?thesis by (subst header_loop.simps) simp
  next
    case c: (Some c)
    let ?sz = "b_end (u_buffer (r_u r)) - b_last (u_buffer (r_u r))"
    obtain n bs c' where rcv: "recv c ?sz = (n, bs, c')" by (cases "recv c ?sz")
    define r1 where "r1 = received c' bs r"
    have 1: "latch_kept r r1" unfolding r1_def by simp
    define r2 where "r2 = (if n = 0 then emit (Log_error ''redis prematurely closed connection'') r1 else r1)"
    have 2: "latch_kept r r2" using 1 by (simp add: r2_def latch_kept_emit_trans)
    define r3 where "r3 = map_u (\<lambda>u. u\<lparr>u_bytes_received := u_bytes_received u + n,
                    u_buffer := (u_buffer u)\<lparr>b_last := b_last (u_buffer u) + nat n\<rparr>\<rparr>) r2"
    have "latch_kept r2 r3" by (rule latch_kept_upd) (simp_all add: r3_def)
    with 2 have 3: "latch_kept r r3" by (rule latch_kept_trans)
    obtain rc r4 where ph: "process_header E r3 = (rc, r4)" by fastforce
    have 4: "latch_kept r r4" using 3 latch_kept_process_header [OF ph] by (rule latch_kept_trans)
    have eq: "header_loop E r =
      (if n = NGX_AGAIN
       then Inl (if \<not> c_rd_event_ok c' then finalize_upstream_request E r1 HTTP_INTERNAL_SERVER_ERROR else r1)
       else if n = NGX_ERROR \<or> n = 0 then Inl (finalize_upstream_request E r2 HTTP_BAD_GATEWAY)
       else if rc = NGX_AGAIN then
         if b_last (u_buffer (r_u r4)) = b_end (u_buffer (r_u r4))
         then Inl (finalize_upstream_request E
                (emit (Log_error ''redis sent too big header'') r4) HTTP_INTERNAL_SERVER_ERROR)
         else header_loop E r4
       else Inr (rc, r4))"
      using c rcv ph unfolding r3_def r2_def r1_def
      by (subst header_loop.simps, cases "n = 0") (simp_all add: Let_def)
    show ?thesis
    proof (cases "n = NGX_AGAIN \<or> n = NGX_ERROR \<or> n = 0 \<or> rc \<noteq> NGX_AGAIN
        \<or> b_last (u_buffer (r_u r4)) = b_end (u_buffer (r_u r4))")
      case True
      have "latch_kept r (finalize_upstream_request E (emit (Log_error m) r4) HTTP_INTERNAL_SERVER_ERROR)" for m
        by (rule latch_kept_finalize_trans) (simp_all add: 4 latch_kept_emit_trans)
      with True 1 2 4 show ?thesis unfolding eq by (auto simp: latch_kept_finalize_trans)
    next
      case False
      have "sum_list (map ev_size (c_recv c')) < sum_list (map ev_size (c_recv c))"
        by (rule recv_decreases [OF rcv]) (use False in simp_all)
      moreover have "recv_events r4 = recv_events r3"
        using process_header_frame [OF ph] recv_events_head_frame by blast
      moreover have "recv_events r3 = c_recv c'"
        by (simp add: recv_events_def r3_def r2_def r1_def received_def emit_def)
      ultimately have "recv_size r4 < recv_size r"
        using c by (auto simp: recv_size_def recv_events_def split: option.splits)
      from less.hyps [OF this] 4 False show ?thesis
        unfolding eq by (auto split: sum.splits prod.splits intro: latch_kept_trans)
    qed
  qed
qed

lemma latch_kept_alloc_buffer:
  assumes "alloc_buffer E r = (ok, r')"
  shows "latch_kept r r'"
proof -
  obtain ok1 r1 where al: "alloc r = (ok1, r1)" by fastforce
  have "latch_kept r1 (map_u (\<lambda>u. u\<lparr>u_start_null := False,
                u_buffer := \<lparr>b_mem = replicate (unat (lc_buffer_size (e_lc E))) (CHR 0x00),
                             b_pos = 0, b_last = 0, b_last_buf = False\<rparr>\<rparr>) r1)"
    by (rule latch_kept_upd) simp_all
  with latch_kept_alloc [OF al] assms al show ?thesis
    by (auto simp: alloc_buffer_def split: if_splits intro: latch_kept_trans)
qed

lemma latch_kept_read_header: "latch_kept r (read_header_handler E r)"
proof (cases "u_conn (r_u r)")
  case None
  then show ?thesis by (simp add: read_header_handler_def)
next
  case (Some c)
  obtain ok r1 where ab: "alloc_buffer E r = (ok, r1)" by fastforce
  note 1 = latch_kept_alloc_buffer [OF ab]
  define res where "res = (case header_loop E r1 of
            Inl r \<Rightarrow> r
          | Inr (rc, r) \<Rightarrow>
              if rc = UPSTREAM_INVALID_HEADER
              then finalize_upstream_request E r HTTP_INTERNAL_SERVER_ERROR
              else if rc = HTTP_BAD_GATEWAY
              then finalize_upstream_request E r HTTP_BAD_GATEWAY
              else if rc = NGX_ERROR
              then finalize_upstream_request E r HTTP_INTERNAL_SERVER_ERROR
              else process_response E
                     (map_u (\<lambda>u. u\<lparr>u_header_time := r_msec r - u_start_time u, u_length := -1\<rparr>) r))"
  have resp: "latch_kept q (process_response E
      (map_u (\<lambda>u. u\<lparr>u_header_time := r_msec q - u_start_time u, u_length := -1\<rparr>) q))" for q
  proof -
    have "latch_kept q (map_u (\<lambda>u. u\<lparr>u_header_time := r_msec q - u_start_time u, u_length := -1\<rparr>) q)"
      by (rule latch_kept_upd) simp_all
    from latch_kept_trans [OF this latch_kept_process_response] show ?thesis .
  qed
  have "latch_kept r1 res"
  proof (cases "header_loop E r1")
    case (Inl q)
    with latch_kept_header_loop [of r1 E] show ?thesis by (simp add: res_def)
  next
    case (Inr p)
    obtain rc q where p: "p = (rc, q)" by (cases p)
    have q: "latch_kept r1 q" using latch_kept_header_loop [of r1 E] Inr p by simp
    from latch_kept_trans [OF q resp] q show ?thesis
      by (simp add: res_def Inr p latch_kept_finalize_trans)
  qed
  with 1 have "latch_kept r res" by (rule latch_kept_trans)
  moreover have "read_header_handler E r =
      (if c_rd_timedout c then finalize_upstream_request E r HTTP_GATEWAY_TIME_OUT
       else if \<not> u_request_sent (r_u r) \<and> test_connect c \<noteq> NGX_OK
       then finalize_upstream_request E r HTTP_SERVICE_UNAVAILABLE
       else if \<not> ok then finalize_upstream_request E r1 HTTP_INTERNAL_SERVER_ERROR
       else res)"
    unfolding res_def by (simp add: read_header_handler_def Some ab)
  ultimately show ?thesis
    using 1 by (simp add: latch_kept_finalize latch_kept_finalize_trans)
qed

subsection \<open>Events\<close>

text \<open>The write side keeps the latch and the frame; it is the one that sends what is left of it.\<close>

definition frame_kept :: "request \<Rightarrow> request \<Rightarrow> bool" where
  "frame_kept r r' \<longleftrightarrow> (fallback_on r \<longrightarrow> fallback_on r' \<and> u_request_bufs (r_u r') = u_request_bufs (r_u r))"

lemma frame_kept_trans: "frame_kept r r' \<Longrightarrow> frame_kept r' r'' \<Longrightarrow> frame_kept r r''"
  by (simp add: frame_kept_def)

lemma latch_frame_kept: "latch_kept r r' \<Longrightarrow> frame_kept r r'"
  by (simp add: latch_kept_def frame_kept_def)

lemma frame_kept_send_eval: "send_eval r = (rc, r') \<Longrightarrow> frame_kept r r'"
proof -
  assume "send_eval r = (rc, r')"
  from send_eval_frame [OF this] have c: "r_ctx r' = r_ctx r" and u: "send_side (r_u r') = send_side (r_u r)"
    by blast+
  have "u_request_bufs (r_u r') = u_request_bufs (r_u r)"
    using arg_cong [OF u, of u_request_bufs] by (simp add: send_side_def)
  with c show "frame_kept r r'" by (simp add: frame_kept_def fallback_on_def)
qed

lemma frame_kept_send_eval_handler: "frame_kept r (send_eval_handler E r)"
proof -
  obtain rc r' where se: "send_eval r = (rc, r')" by fastforce
  have "frame_kept r (finalize_upstream_request E r' rc)"
    using frame_kept_send_eval [OF se] latch_frame_kept [OF latch_kept_finalize [of rc r' E]] send_eval_frame [OF se]
    by (auto intro: frame_kept_trans)
  moreover have "frame_kept r (finalize_upstream_request E (emit (Log_error m) r) HTTP_GATEWAY_TIME_OUT)" for m
    by (rule latch_frame_kept) (simp add: latch_kept_finalize_trans)
  moreover have "frame_kept r r" by (simp add: frame_kept_def)
  ultimately show ?thesis
    using frame_kept_send_eval [OF se] by (simp add: send_eval_handler_def se split: option.split)
qed

lemma frame_kept_arrive: "frame_kept r (arrive c sent as now r)"
  by (simp add: frame_kept_def fallback_on_def arrive_def)

lemma frame_kept_stock:
  assumes "stock_keeps r r' \<or> stock_ends E r rc r'"
  shows "frame_kept r r'"
  using assms
proof
  assume "stock_keeps r r'"
  then show ?thesis by (auto simp: stock_keeps_def frame_kept_def fallback_on_def)
next
  assume "stock_ends E r rc r'"
  then obtain r1 where r1: "r_ctx r1 = r_ctx r" "r_ctx r' = r_ctx (finalize_request E r1)"
    and bufs: "u_request_bufs (r_u r') = u_request_bufs (r_u r)"
    by (auto simp: stock_ends_def)
  from r1 finalize_request_latch [of E r1] have "fallback_on r' = fallback_on r" by (simp add: fallback_on_def)
  with bufs show ?thesis by (simp add: frame_kept_def)
qed

lemma frame_kept_step:
  assumes "event_step N E r r'" "write_contract N"
  shows "frame_kept r r'"
  using assms(1)
proof cases
  case (read_header c sent as now)
  then show ?thesis by (blast intro: frame_kept_trans frame_kept_arrive latch_frame_kept latch_kept_read_header)
next
  case (read_body c sent as now)
  then show ?thesis by (blast intro: frame_kept_trans frame_kept_arrive latch_frame_kept latch_kept_read_body)
next
  case (write_eval c sent as now)
  then show ?thesis by (blast intro: frame_kept_trans frame_kept_arrive frame_kept_send_eval_handler)
next
  case (write_dummy c sent as now)
  have "latch_kept q (dummy_handler q)" for q by (simp add: dummy_handler_def)
  with write_dummy show ?thesis by (blast intro: frame_kept_trans frame_kept_arrive latch_frame_kept)
next
  case (write_stock c sent as now)
  have "u_conn (r_u (arrive c sent as now r)) \<noteq> None" by (simp add: arrive_def)
  with write_stock(3) assms(2) obtain rc where
    "stock_keeps (arrive c sent as now r) r' \<or> stock_ends E (arrive c sent as now r) rc r'"
    unfolding write_contract_def write_stock(1) by (metis arrive_fields(2))
  from frame_kept_trans [OF frame_kept_arrive frame_kept_stock [OF this]] show ?thesis .
qed

lemma frame_kept_run:
  assumes "(event_step N E)\<^sup>*\<^sup>* r r'" "write_contract N"
  shows "frame_kept r r'"
  using assms(1)
proof (induction rule: rtranclp_induct)
  case (step r1 r2)
  then show ?case using frame_kept_step [OF step.hyps(2) assms(2)] by (blast intro: frame_kept_trans)
qed (simp add: frame_kept_def)

section \<open>The property\<close>

text \<open>C29: The NOSCRIPT fallback happens at most once per round trip.  \<open>process_header\<close> writes to the
  connection only when the latch was off, and it is on afterwards; and once it is on, then after any
  sequence of events it is still on, the request is still the one frame that was built for the
  fallback, and a read event of whatever kind writes nothing to the connection.\<close>

theorem eval_fallback_once:
  assumes "write_contract N" "fallback_on r" "(event_step N E)\<^sup>*\<^sup>* r r'"
  shows "(process_header E q = (rc, q') \<longrightarrow> Sent s \<in> set (drop (length (r_effects q)) (r_effects q')) \<longrightarrow>
      \<not> fallback_on q \<and> fallback_on q')
    \<and> fallback_on r' \<and> u_request_bufs (r_u r') = u_request_bufs (r_u r)
    \<and> (\<exists>es. r_effects (read_header_handler E (arrive c sent as now r')) = r_effects r' @ es \<and> Sent s \<notin> set es)
    \<and> (\<exists>es. r_effects (read_body_handler E (arrive c sent as now r')) = r_effects r' @ es \<and> Sent s \<notin> set es)"
proof (intro conjI impI)
  have f: "fallback_on r' \<and> u_request_bufs (r_u r') = u_request_bufs (r_u r)"
    using frame_kept_run [OF assms(3,1)] assms(2) by (simp add: frame_kept_def)
  then show "fallback_on r'" "u_request_bufs (r_u r') = u_request_bufs (r_u r)" by blast+
  let ?q = "arrive c sent as now r'"
  have q: "fallback_on ?q" "r_effects ?q = r_effects r'" using f by (simp_all add: fallback_on_def arrive_def)
  have quiet: "\<exists>es. r_effects q' = r_effects r' @ es \<and> Sent s \<notin> set es" if "latch_kept ?q q'" for q'
    using that q by (fastforce simp: latch_kept_def adds_def is_sent_def)
  show "\<exists>es. r_effects (read_header_handler E ?q) = r_effects r' @ es \<and> Sent s \<notin> set es"
    "\<exists>es. r_effects (read_body_handler E ?q) = r_effects r' @ es \<and> Sent s \<notin> set es"
    by (rule quiet, rule latch_kept_read_header latch_kept_read_body)+
  assume ph: "process_header E q = (rc, q')" and s: "Sent s \<in> set (drop (length (r_effects q)) (r_effects q'))"
  have "\<not> adds safe_log q q'" using s by (fastforce simp: adds_def safe_log_def)
  with process_header_adds [OF ph] show "\<not> fallback_on q" "fallback_on q'" by blast+
qed

text \<open>A request whose EVAL has been sent, to which Redis answers NOSCRIPT again.\<close>

definition resent_request :: request where
  "resent_request = sample_request\<lparr>r_ctx := Some (sample_ctx\<lparr>eval_fallback := True\<rparr>),
     r_u := sample_upstream\<lparr>u_request_bufs := [0], u_write_handler := WH_dummy\<rparr>\<rparr>"

definition noscript_event :: "request \<Rightarrow> request" where
  "noscript_event r = read_header_handler sample_env
     (arrive (sample_conn\<lparr>c_recv := [Recv_data (''-NOSCRIPT No matching script.'' @ CRLF) False]\<rparr>) True [] 9 r)"

theorem eval_fallback_once_witness:
  "fallback_on (noscript_event resent_request) \<and> u_request_bufs (r_u (noscript_event resent_request)) = [0]
   \<and> (\<nexists>s. Sent s \<in> set (r_effects (noscript_event resent_request)))"
proof -
  have on: "fallback_on resent_request" and h: "u_conn (r_u resent_request) \<noteq> None"
    "u_read_handler (r_u resent_request) = RH_header" "u_request_bufs (r_u resent_request) = [0]"
    "r_effects resent_request = []"
    by (simp_all add: fallback_on_def resent_request_def sample_upstream_def sample_request_def)
  have "event_step sample_module sample_env resent_request (noscript_event resent_request)"
    unfolding noscript_event_def using h(1,2) by (rule event_step.read_header)
  then have run: "(event_step sample_module sample_env)\<^sup>*\<^sup>* resent_request (noscript_event resent_request)" by blast
  have "Sent s \<notin> set (r_effects (noscript_event resent_request))" for s
    using eval_fallback_once [OF sample_module_contract on, of sample_env resent_request] h(4)
    by (auto simp: noscript_event_def)
  with eval_fallback_once [OF sample_module_contract on run] h(3) show ?thesis by auto
qed

end
