(* ===== verification/RL_Lua.thy ===== *)
theory RL_Lua
  imports Complex_Main RL_Prelude "HOL-Library.Monad_Syntax"
begin

text \<open>
  The four rate limiting scripts of \<open>src/ngx_http_ratelimit_script.c\<close>, which Redis runs: what each
  returns and what it leaves in the store.  A script is one atomic step on the store.  The double
  arithmetic of Lua and the commands of Redis are parameters; what they are documented to do is
  stated as predicates on them, which the theorems assume and the witnesses discharge.
\<close>

section \<open>Lua numbers and the store\<close>

text \<open>Lua numbers are doubles.  Every arithmetic operation is the exact one followed by \<open>l_rnd\<close>, the
  rounding to a double; comparisons, \<open>math.floor\<close> and \<open>math.ceil\<close> are exact on doubles.
  \<open>l_tonumber\<close> is \<open>tonumber\<close> on a string (\<open>None\<close> for nil), \<open>l_fmt\<close> is
  \<open>string.format('%.6f', x)\<close> and \<open>l_str\<close> the text of a number that is an argument of a command.\<close>

record lua =
  l_rnd :: "rat \<Rightarrow> rat"
  l_tonumber :: "ngx_str \<Rightarrow> rat option"
  l_fmt :: "rat \<Rightarrow> ngx_str"
  l_str :: "rat \<Rightarrow> ngx_str"

definition add :: "lua \<Rightarrow> rat \<Rightarrow> rat \<Rightarrow> rat" where "add L a b = l_rnd L (a + b)"
definition sub :: "lua \<Rightarrow> rat \<Rightarrow> rat \<Rightarrow> rat" where "sub L a b = l_rnd L (a - b)"
definition mul :: "lua \<Rightarrow> rat \<Rightarrow> rat \<Rightarrow> rat" where "mul L a b = l_rnd L (a * b)"
definition dvd_by :: "lua \<Rightarrow> rat \<Rightarrow> rat \<Rightarrow> rat" where "dvd_by L a b = l_rnd L (a / b)"

text \<open>\<open>tonumber\<close> of a bulk string or nil.\<close>

definition tonum :: "lua \<Rightarrow> ngx_str option \<Rightarrow> rat option" where
  "tonum L v = Option.bind v (l_tonumber L)"

text \<open>The commands the scripts call, on a store of any type: what \<open>redis.call\<close> returns and the store
  after it.  \<open>None\<close> is an error reply (a key of another type, say), which ends the script; the inner
  option of a bulk string is nil.\<close>

record 's redis =
  rd_time :: "'s \<Rightarrow> nat \<times> nat"
  rd_get :: "'s \<Rightarrow> ngx_str \<Rightarrow> ngx_str option option"
  rd_set :: "'s \<Rightarrow> ngx_str \<Rightarrow> ngx_str \<Rightarrow> 's option"
  rd_ttl :: "'s \<Rightarrow> ngx_str \<Rightarrow> int"
  rd_incrby :: "'s \<Rightarrow> ngx_str \<Rightarrow> rat \<Rightarrow> (int \<times> 's) option"
  rd_expire :: "'s \<Rightarrow> ngx_str \<Rightarrow> rat \<Rightarrow> 's option"
  rd_hmget :: "'s \<Rightarrow> ngx_str \<Rightarrow> ngx_str list \<Rightarrow> ngx_str option list option"
  rd_hset :: "'s \<Rightarrow> ngx_str \<Rightarrow> (ngx_str \<times> ngx_str) list \<Rightarrow> 's option"

text \<open>A Lua number in the returned table becomes a RESP integer by truncation.\<close>

definition trunc :: "rat \<Rightarrow> int" where
  "trunc x = (if x < 0 then \<lceil>x\<rceil> else \<lfloor>x\<rfloor>)"

abbreviation lua_reply :: "rat list \<Rightarrow> int list" where
  "lua_reply \<equiv> map trunc"

text \<open>\<open>tonumber(t[1]) + tonumber(t[2]) / 1000000\<close>.\<close>

definition now_of :: "lua \<Rightarrow> 's redis \<Rightarrow> 's \<Rightarrow> rat" where
  "now_of L R s = (case rd_time R s of (sec, usec) \<Rightarrow> add L (of_nat sec) (dvd_by L (of_nat usec) 1000000))"

section \<open>Fixed window\<close>

definition fixed_window ::
    "lua \<Rightarrow> 's redis \<Rightarrow> 's \<Rightarrow> ngx_str \<Rightarrow> rat \<Rightarrow> rat \<Rightarrow> rat \<Rightarrow> (int list \<times> 's) option" where
  "fixed_window L R s k limit window quantity =
     do {
       v \<leftarrow> rd_get R s k;
       current \<leftarrow> (case v of None \<Rightarrow> Some 0 | Some t \<Rightarrow> l_tonumber L t);
       if quantity = 0 then
         let ttl = l_rnd L (of_int (rd_ttl R s k));
             ttl = (if ttl < 0 then 0 else ttl);
             remaining = sub L limit current;
             remaining = (if remaining < 0 then 0 else remaining);
             status = (if limit \<le> current then 1 else 0)
         in Some (lua_reply [status, limit, remaining, -1, ttl], s)
       else if limit < add L current quantity then
         let ttl = l_rnd L (of_int (rd_ttl R s k));
             ttl = (if ttl < 0 then window else ttl);
             remaining = sub L limit current;
             remaining = (if remaining < 0 then 0 else remaining);
             retry_after = (if ttl < 1 then 1 else ttl)
         in Some (lua_reply [1, limit, remaining, retry_after, ttl], s)
       else do {
         (n, s) \<leftarrow> rd_incrby R s k quantity;
         let newval = l_rnd L (of_int n);
         (ttl, s) \<leftarrow>
           (if newval = quantity then map_option (Pair window) (rd_expire R s k window)
            else
              let ttl = l_rnd L (of_int (rd_ttl R s k)) in
              if ttl < 0 then map_option (Pair window) (rd_expire R s k window) else Some (ttl, s));
         let remaining = sub L limit newval;
         let remaining = (if remaining < 0 then 0 else remaining);
         Some (lua_reply [0, limit, remaining, -1, ttl], s)
       }
     }"

section \<open>Token bucket\<close>

text \<open>The bucket of a key, refilled to the present: tokens and the time they are counted at.\<close>

definition bucket ::
    "lua \<Rightarrow> 's redis \<Rightarrow> 's \<Rightarrow> ngx_str \<Rightarrow> rat \<Rightarrow> rat \<Rightarrow> (rat \<times> rat) option" where
  "bucket L R s k capacity rate =
     do {
       let now = now_of L R s;
       data \<leftarrow> rd_hmget R s k [''tokens'', ''ts''];
       (tokens, ts) \<leftarrow>
         (case (tonum L (data ! 0), tonum L (data ! 1)) of
            (None, _) \<Rightarrow> Some (capacity, now)
          | (Some tokens, Some ts) \<Rightarrow> Some (tokens, ts)
          | (Some _, None) \<Rightarrow> None);
       let elapsed = sub L now ts;
       Some (if 0 < elapsed
             then let tokens = add L tokens (mul L elapsed rate)
                  in (if capacity < tokens then capacity else tokens, now)
             else (tokens, ts))
     }"

definition token_bucket ::
    "lua \<Rightarrow> 's redis \<Rightarrow> 's \<Rightarrow> ngx_str \<Rightarrow> rat \<Rightarrow> rat \<Rightarrow> rat \<Rightarrow> rat \<Rightarrow> (int list \<times> 's) option" where
  "token_bucket L R s k requests period burst quantity =
     do {
       let capacity = add L requests burst;
       let rate = dvd_by L requests period;
       (tokens, ts) \<leftarrow> bucket L R s k capacity rate;
       let ttl = of_int \<lceil>dvd_by L capacity rate\<rceil>;
       let ttl = (if ttl < 1 then 1 else ttl);
       let reset = of_int \<lceil>dvd_by L (sub L capacity tokens) rate\<rceil>;
       let reset = (if reset < 0 then 0 else reset);
       if quantity = 0 then
         Some (lua_reply [if tokens < 1 then 1 else 0, capacity, of_int \<lfloor>tokens\<rfloor>, -1, reset], s)
       else if quantity \<le> tokens then do {
         let tokens = sub L tokens quantity;
         s \<leftarrow> rd_hset R s k [(''tokens'', l_fmt L tokens), (''ts'', l_fmt L ts)];
         s \<leftarrow> rd_expire R s k ttl;
         let reset = of_int \<lceil>dvd_by L (sub L capacity tokens) rate\<rceil>;
         let reset = (if reset < 0 then 0 else reset);
         Some (lua_reply [0, capacity, of_int \<lfloor>tokens\<rfloor>, -1, reset], s)
       } else do {
         s \<leftarrow> rd_hset R s k [(''tokens'', l_fmt L tokens), (''ts'', l_fmt L ts)];
         s \<leftarrow> rd_expire R s k ttl;
         let retry_after = of_int \<lceil>dvd_by L (sub L quantity tokens) rate\<rceil>;
         let retry_after = (if retry_after < 1 then 1 else retry_after);
         Some (lua_reply [1, capacity, of_int \<lfloor>tokens\<rfloor>, retry_after, reset], s)
       }
     }"

section \<open>GCRA\<close>

text \<open>The theoretical arrival time of a key, not before the present.\<close>

definition arrival :: "lua \<Rightarrow> 's redis \<Rightarrow> 's \<Rightarrow> ngx_str \<Rightarrow> rat option" where
  "arrival L R s k =
     do {
       let now = now_of L R s;
       v \<leftarrow> rd_get R s k;
       let tat = (case tonum L v of None \<Rightarrow> now | Some tat \<Rightarrow> tat);
       Some (if tat < now then now else tat)
     }"

definition gcra ::
    "lua \<Rightarrow> 's redis \<Rightarrow> 's \<Rightarrow> ngx_str \<Rightarrow> rat \<Rightarrow> rat \<Rightarrow> rat \<Rightarrow> rat \<Rightarrow> (int list \<times> 's) option" where
  "gcra L R s k requests period burst quantity =
     do {
       let emission = dvd_by L period requests;
       let now = now_of L R s;
       tat \<leftarrow> arrival L R s k;
       let limit = add L burst 1;
       let horizon = mul L emission (add L burst 1);
       if quantity = 0 then
         let avail = of_int \<lfloor>dvd_by L (sub L now (sub L tat horizon)) emission\<rfloor>;
             avail = (if limit < avail then limit else avail);
             status = (if avail < 1 then 1 else 0);
             reset = of_int \<lceil>sub L tat now\<rceil>;
             reset = (if reset < 0 then 0 else reset)
         in Some (lua_reply [status, limit, avail, -1, reset], s)
       else
         let new_tat = add L tat (mul L emission quantity);
             allow_at = sub L new_tat horizon;
             diff = sub L now allow_at
         in if diff < 0 then
              let retry_after = of_int \<lceil>- diff\<rceil>;
                  retry_after = (if retry_after < 1 then 1 else retry_after);
                  reset = of_int \<lceil>sub L tat now\<rceil>;
                  reset = (if reset < 0 then 0 else reset)
              in Some (lua_reply [1, limit, 0, retry_after, reset], s)
            else do {
              let remaining = of_int \<lfloor>dvd_by L diff emission\<rfloor>;
              let reset = of_int \<lceil>sub L new_tat now\<rceil>;
              let reset = (if reset < 0 then 0 else reset);
              s \<leftarrow> rd_set R s k (l_fmt L new_tat);
              let ttl = of_int \<lceil>sub L new_tat now\<rceil>;
              let ttl = (if ttl < 1 then 1 else ttl);
              s \<leftarrow> rd_expire R s k ttl;
              Some (lua_reply [0, limit, remaining, -1, reset], s)
            }
     }"

section \<open>Sliding window\<close>

text \<open>The index of the present window and the seconds since it began.\<close>

definition window_of :: "lua \<Rightarrow> 's redis \<Rightarrow> 's \<Rightarrow> rat \<Rightarrow> rat \<times> rat" where
  "window_of L R s window =
     (let now = now_of L R s;
          cur_win = of_int \<lfloor>dvd_by L now window\<rfloor>
      in (cur_win, sub L now (mul L cur_win window)))"

text \<open>The counts of the present and the previous window; \<open>w\<close> is \<open>cur_win\<close> from here on.\<close>

definition counts :: "lua \<Rightarrow> 's redis \<Rightarrow> 's \<Rightarrow> ngx_str \<Rightarrow> rat \<Rightarrow> (rat \<times> rat) option" where
  "counts L R s k cur_win =
     do {
       data \<leftarrow> rd_hmget R s k [''c'', ''w'', ''p''];
       let (c, w, p) =
         (case tonum L (data ! 0) of
            None \<Rightarrow> (0, Some cur_win, Some 0)
          | Some c \<Rightarrow> (c, tonum L (data ! 1), tonum L (data ! 2)));
       if w = Some (sub L cur_win 1) then Some (0, c)
       else if w \<noteq> Some cur_win then Some (0, 0)
       else map_option (Pair c) p
     }"

definition sliding_window ::
    "lua \<Rightarrow> 's redis \<Rightarrow> 's \<Rightarrow> ngx_str \<Rightarrow> rat \<Rightarrow> rat \<Rightarrow> rat \<Rightarrow> (int list \<times> 's) option" where
  "sliding_window L R s k limit window quantity =
     do {
       let (cur_win, elapsed) = window_of L R s window;
       let weight = dvd_by L (sub L window elapsed) window;
       (c, p) \<leftarrow> counts L R s k cur_win;
       let est = add L (mul L p weight) c;
       let remaining = of_int \<lfloor>sub L limit est\<rfloor>;
       let remaining = (if remaining < 0 then 0 else remaining);
       let win_remaining = of_int \<lceil>sub L window elapsed\<rceil>;
       let win_remaining = (if win_remaining < 0 then 0 else win_remaining);
       if quantity = 0 then
         let status = (if limit \<le> est then 1 else 0);
             reset = (if 0 < c \<or> 0 < p then win_remaining else 0)
         in Some (lua_reply [status, limit, remaining, -1, reset], s)
       else if limit < add L est quantity then
         let headroom = sub L (sub L limit quantity) c;
             retry_after =
               (if 0 < p \<and> 0 \<le> headroom
                then of_int \<lceil>sub L (sub L window elapsed) (dvd_by L (mul L headroom window) p)\<rceil>
                else win_remaining);
             retry_after = (if retry_after < 1 then 1 else retry_after)
         in Some (lua_reply [1, limit, remaining, retry_after, win_remaining], s)
       else do {
         let c = add L c quantity;
         s \<leftarrow> rd_hset R s k [(''c'', l_str L c), (''w'', l_str L cur_win), (''p'', l_str L p)];
         s \<leftarrow> rd_expire R s k (mul L window 2);
         let est = add L (mul L p weight) c;
         let remaining = of_int \<lfloor>sub L limit est\<rfloor>;
         let remaining = (if remaining < 0 then 0 else remaining);
         Some (lua_reply [0, limit, remaining, -1, win_remaining], s)
       }
     }"

end
