(* ===== verification/RL_Config.thy ===== *)
theory RL_Config
  imports RL_Script
begin

text \<open>
  The configuration, \<open>src/ngx_http_ratelimit_module.c\<close>: creation and merging of the
  configurations, the directives, and the postconfiguration hook.  The functions of nginx that parse
  a number, a time or a complex value, the slot setters and the registries are parameters.  An error
  ends the configuration load, so what a failing directive has changed so far is not a result.
\<close>

section \<open>Services of nginx\<close>

text \<open>\<open>ngx_int_t\<close> values are words read with \<open>sint\<close>.  The slot setters take the current value of
  the slot (they refuse a second setting) and return the new one.\<close>

record conf_env =
  ce_atoi :: "ngx_str \<Rightarrow> u64"                     \<comment> \<open>\<open>ngx_atoi\<close>\<close>
  ce_parse_time :: "ngx_str \<Rightarrow> u64"               \<comment> \<open>\<open>ngx_parse_time(s, 1)\<close>\<close>
  ce_compile :: "ngx_str \<Rightarrow> complex_value option" \<comment> \<open>\<open>ngx_http_compile_complex_value\<close>\<close>
  ce_variables :: "ngx_str \<Rightarrow> nat"                \<comment> \<open>\<open>ngx_http_script_variables_count\<close>\<close>
  ce_upstream_add :: "ngx_str \<Rightarrow> srv_conf option" \<comment> \<open>\<open>ngx_http_upstream_add(cf, url, 0)\<close>\<close>
  ce_set_num :: "(int \<times> int) option \<Rightarrow> ngx_str \<Rightarrow> u64 \<Rightarrow> u64 option"
  ce_set_enum :: "(ngx_str \<times> u64) list \<Rightarrow> ngx_str \<Rightarrow> u64 \<Rightarrow> u64 option"
  ce_set_flag :: "ngx_str \<Rightarrow> u64 \<Rightarrow> u64 option"
  ce_set_size :: "ngx_str \<Rightarrow> u64 \<Rightarrow> u64 option"
  ce_set_msec :: "ngx_str \<Rightarrow> u64 \<Rightarrow> u64 option"
  ce_set_str :: "ngx_str \<Rightarrow> ngx_str option \<Rightarrow> ngx_str option"
  ce_pagesize :: u64
  ce_palloc_ok :: bool                      \<comment> \<open>\<open>ngx_palloc\<close> from the configuration pool succeeds\<close>
  ce_files :: files

text \<open>How a directive fails: a logged error, or a message nginx completes.\<close>

datatype conf_error = Conf_error ngx_str | Conf_message ngx_str

type_synonym 'a conf_result = "conf_error + 'a"

text \<open>Processing a list of parameters, directives or blocks in order: the first error ends it.\<close>

fun conf_fold :: "('v \<Rightarrow> 'a \<Rightarrow> 'a conf_result) \<Rightarrow> 'v list \<Rightarrow> 'a \<Rightarrow> 'a conf_result" where
  "conf_fold f [] a = Inr a"
| "conf_fold f (v # vs) a = (case f v a of Inl e \<Rightarrow> Inl e | Inr a \<Rightarrow> conf_fold f vs a)"

section \<open>The configurations\<close>

text \<open>\<open>ngx_http_ratelimit_main_conf_t\<close>.\<close>

record main_conf =
  mc_zones :: "zone list"
  mc_done_index :: u64

text \<open>\<open>ngx_http_ratelimit_loc_conf_t\<close> while it is configured: the zone is the address of an element of
  the zone array, and a string that is not set (a \<open>NULL\<close> data pointer) differs from an empty
  one.\<close>

record loc_dir =
  ld_zone_name :: ngx_str
  ld_zone :: "nat option"
  ld_burst :: u64
  ld_upstream :: "srv_conf option"
  ld_connect_timeout :: u64
  ld_send_timeout :: u64
  ld_read_timeout :: u64
  ld_buffer_size :: u64
  ld_complex_target :: "complex_value option"
  ld_password :: "ngx_str option"
  ld_database :: u64
  ld_enable_headers :: u64
  ld_status_code :: u64
  ld_limit_log_level :: u64
  ld_on_error :: u64
  ld_prefix :: "ngx_str option"
  ld_quantity :: u64

text \<open>\<open>ngx_http_ratelimit_create_main_conf\<close>; the arguments are the outcomes of its two
  allocations.\<close>

definition create_main_conf :: "bool \<Rightarrow> bool \<Rightarrow> main_conf option" where
  "create_main_conf pcalloc_ok array_ok =
     (if \<not> pcalloc_ok then None
      else if \<not> array_ok then None
      else Some \<lparr>mc_zones = [], mc_done_index = 0\<rparr>)"

text \<open>\<open>ngx_http_ratelimit_create_loc_conf\<close>: the fields the module reads.\<close>

definition create_loc_conf :: "bool \<Rightarrow> loc_dir option" where
  "create_loc_conf pcalloc_ok =
     (if \<not> pcalloc_ok then None
      else Some \<lparr>ld_zone_name = [], ld_zone = None, ld_burst = CONF_UNSET, ld_upstream = None,
        ld_connect_timeout = CONF_UNSET, ld_send_timeout = CONF_UNSET, ld_read_timeout = CONF_UNSET,
        ld_buffer_size = CONF_UNSET, ld_complex_target = None, ld_password = None,
        ld_database = CONF_UNSET, ld_enable_headers = CONF_UNSET, ld_status_code = CONF_UNSET,
        ld_limit_log_level = CONF_UNSET, ld_on_error = CONF_UNSET, ld_prefix = None,
        ld_quantity = CONF_UNSET\<rparr>)"

section \<open>Merging\<close>

text \<open>\<open>ngx_conf_merge_value\<close> and its unsigned, msec and size variants; \<open>ngx_conf_merge_str_value\<close>
  with the default \<open>""\<close>.\<close>

definition merge_value :: "u64 \<Rightarrow> u64 \<Rightarrow> u64 \<Rightarrow> u64" where
  "merge_value conf prev dflt =
     (if conf = CONF_UNSET then (if prev = CONF_UNSET then dflt else prev) else conf)"

definition merge_str_value :: "ngx_str option \<Rightarrow> ngx_str option \<Rightarrow> ngx_str option" where
  "merge_str_value conf prev =
     (case conf of Some s \<Rightarrow> Some s | None \<Rightarrow> (case prev of Some s \<Rightarrow> Some s | None \<Rightarrow> Some []))"

text \<open>The search for a zone by name, from index \<open>i\<close> on.\<close>

fun find_zone :: "zone list \<Rightarrow> ngx_str \<Rightarrow> nat \<Rightarrow> nat option" where
  "find_zone [] name i = None"
| "find_zone (z # zs) name i = (if z_name z = name then Some i else find_zone zs name (Suc i))"

text \<open>\<open>requests > NGX_HTTP_RATELIMIT_LUA_MAX_SAFE_INT - burst\<close>, a signed comparison.\<close>

definition over_lua_limit :: "u64 \<Rightarrow> u64 \<Rightarrow> bool" where
  "over_lua_limit requests burst \<longleftrightarrow> sint (of_int LUA_MAX_SAFE_INT - burst) < sint requests"

text \<open>The zone of a location: inherited with its name, or looked up.\<close>

definition resolve_zone :: "main_conf \<Rightarrow> loc_dir \<Rightarrow> loc_dir \<Rightarrow> loc_dir conf_result" where
  "resolve_zone M prev conf =
     (let conf = (if ld_zone_name conf = []
                  then conf\<lparr>ld_zone_name := ld_zone_name prev, ld_zone := ld_zone prev\<rparr> else conf)
      in if ld_zone_name conf \<noteq> [] \<and> ld_zone conf = None
         then (case find_zone (mc_zones M) (ld_zone_name conf) 0 of
                 None \<Rightarrow> Inl (Conf_error ''unknown ratelimit zone'')
               | Some i \<Rightarrow> Inr (conf\<lparr>ld_zone := Some i\<rparr>))
         else Inr conf)"

text \<open>\<open>ngx_http_ratelimit_merge_loc_conf\<close>.\<close>

definition merge_loc_conf :: "conf_env \<Rightarrow> main_conf \<Rightarrow> loc_dir \<Rightarrow> loc_dir \<Rightarrow> loc_dir conf_result" where
  "merge_loc_conf C M prev conf =
     (case resolve_zone M prev conf of
        Inl e \<Rightarrow> Inl e
      | Inr conf \<Rightarrow>
          let conf = conf\<lparr>ld_burst := merge_value (ld_burst conf) (ld_burst prev) CONF_UNSET\<rparr> in
          if (case ld_zone conf of None \<Rightarrow> False
              | Some i \<Rightarrow> ld_burst conf \<noteq> CONF_UNSET \<and> over_lua_limit (z_requests (mc_zones M ! i)) (ld_burst conf))
          then Inl (Conf_error ''requests + burst must not exceed'')
          else
            let conf = conf\<lparr>
                ld_connect_timeout := merge_value (ld_connect_timeout conf) (ld_connect_timeout prev) 60000,
                ld_send_timeout := merge_value (ld_send_timeout conf) (ld_send_timeout prev) 60000,
                ld_read_timeout := merge_value (ld_read_timeout conf) (ld_read_timeout prev) 60000,
                ld_buffer_size := merge_value (ld_buffer_size conf) (ld_buffer_size prev) (ce_pagesize C)\<rparr>;
              conf = (if ld_upstream conf = None then conf\<lparr>ld_upstream := ld_upstream prev\<rparr> else conf);
              conf = (if ld_complex_target conf = None
                      then conf\<lparr>ld_complex_target := ld_complex_target prev\<rparr> else conf)
            in if ld_zone conf \<noteq> None \<and> ld_upstream conf = None \<and> ld_complex_target conf = None
               then Inl (Conf_error ''requires ratelimit_pass'')
               else Inr (conf\<lparr>
                 ld_enable_headers := merge_value (ld_enable_headers conf) (ld_enable_headers prev) 0,
                 ld_status_code := merge_value (ld_status_code conf) (ld_status_code prev) ST_TOO_MANY_REQUESTS,
                 ld_limit_log_level := merge_value (ld_limit_log_level conf) (ld_limit_log_level prev) 4,
                 ld_on_error := merge_value (ld_on_error conf) (ld_on_error prev) ON_ERROR_DENY,
                 ld_prefix := merge_str_value (ld_prefix conf) (ld_prefix prev),
                 ld_quantity := merge_value (ld_quantity conf) (ld_quantity prev) 1,
                 ld_password := merge_str_value (ld_password conf) (ld_password prev),
                 ld_database := merge_value (ld_database conf) (ld_database prev) CONF_UNSET\<rparr>))"

text \<open>The configuration a request is served with: the zone pointer followed.\<close>

definition served :: "main_conf \<Rightarrow> loc_dir \<Rightarrow> loc_conf" where
  "served M d = \<lparr>lc_zone_name = ld_zone_name d, lc_zone = map_option (\<lambda>i. mc_zones M ! i) (ld_zone d),
     lc_burst = ld_burst d, lc_upstream = ld_upstream d, lc_connect_timeout = ld_connect_timeout d,
     lc_send_timeout = ld_send_timeout d, lc_read_timeout = ld_read_timeout d,
     lc_buffer_size = ld_buffer_size d, lc_complex_target = ld_complex_target d,
     lc_password = (case ld_password d of None \<Rightarrow> [] | Some s \<Rightarrow> s), lc_database = ld_database d,
     lc_enable_headers = ld_enable_headers d, lc_status_code = ld_status_code d,
     lc_limit_log_level = ld_limit_log_level d, lc_on_error = ld_on_error d,
     lc_prefix = (case ld_prefix d of None \<Rightarrow> [] | Some s \<Rightarrow> s), lc_quantity = ld_quantity d\<rparr>"

section \<open>\<open>ratelimit_zone\<close>\<close>

text \<open>\<open>ngx_strncmp(v, p, sizeof(p) - 1) == 0\<close> for a literal \<open>p\<close>; what follows is \<open>drop (length p) v\<close>.\<close>

definition has_prefix :: "ngx_str \<Rightarrow> ngx_str \<Rightarrow> bool" where
  "has_prefix p v \<longleftrightarrow> take (length p) v = p"

text \<open>\<open>ngx_http_ratelimit_parse_rate\<close>: the pair of requests and period.\<close>

definition parse_rate :: "conf_env \<Rightarrow> ngx_str \<Rightarrow> (u64 \<times> u64) conf_result" where
  "parse_rate C value =
     (let p = drop (length ''rate='') value;
          len = length (takeWhile is_digit p);
          requests = ce_atoi C (take len p);
          p' = drop len p
      in if sint requests \<le> 0 then Inl (Conf_message ''invalid'')
         else if length p' \<noteq> 3 \<or> p' ! 0 \<noteq> CHR ''r'' \<or> p' ! 1 \<noteq> CHR ''/'' then Inl (Conf_message ''invalid'')
         else if p' ! 2 = CHR ''s'' then Inr (requests, 1)
         else if p' ! 2 = CHR ''m'' then Inr (requests, 60)
         else if p' ! 2 = CHR ''h'' then Inr (requests, 3600)
         else Inl (Conf_message ''invalid''))"

text \<open>The local variables of \<open>ngx_http_ratelimit_zone\<close>.\<close>

record zone_args =
  za_zone :: zone
  za_requests :: u64
  za_period :: u64
  za_burst :: u64
  za_has_rate :: bool
  za_has_requests :: bool
  za_has_period :: bool
  za_has_key :: bool
  za_has_script :: bool

definition parse_algo :: "ngx_str \<Rightarrow> algo option" where
  "parse_algo s =
     (if s = ''fixed_window'' then Some ALGO_FIXED_WINDOW
      else if s = ''token_bucket'' then Some ALGO_TOKEN_BUCKET
      else if s = ''gcra'' then Some ALGO_GCRA
      else if s = ''sliding_window'' then Some ALGO_SLIDING_WINDOW
      else if s = ''custom'' then Some ALGO_CUSTOM
      else None)"

text \<open>One turn of the loop over the parameters.\<close>

definition zone_arg :: "conf_env \<Rightarrow> ngx_str \<Rightarrow> zone_args \<Rightarrow> zone_args conf_result" where
  "zone_arg C v a =
     (if has_prefix ''key='' v then
        (case ce_compile C (drop 4 v) of
           None \<Rightarrow> Inl (Conf_error ''complex value'')
         | Some cv \<Rightarrow> Inr (a\<lparr>za_zone := (za_zone a)\<lparr>z_key := cv\<rparr>, za_has_key := True\<rparr>))
      else if has_prefix ''rate='' v then
        (case parse_rate C v of
           Inl e \<Rightarrow> Inl (Conf_error ''invalid rate'')
         | Inr (requests, period) \<Rightarrow>
             Inr (a\<lparr>za_requests := requests, za_period := period, za_has_rate := True\<rparr>))
      else if has_prefix ''requests='' v then
        (let requests = ce_atoi C (drop 9 v) in
         if sint requests \<le> 0 then Inl (Conf_error ''invalid requests value'')
         else Inr (a\<lparr>za_requests := requests, za_has_requests := True\<rparr>))
      else if has_prefix ''period='' v then
        (let period = ce_parse_time C (drop 7 v) in
         if sint period \<le> 0 then Inl (Conf_error ''invalid period time'')
         else Inr (a\<lparr>za_period := period, za_has_period := True\<rparr>))
      else if has_prefix ''burst='' v then
        (let burst = ce_atoi C (drop 6 v) in
         if sint burst < 0 then Inl (Conf_error ''invalid burst value'')
         else Inr (a\<lparr>za_burst := burst\<rparr>))
      else if has_prefix ''algo='' v then
        (case parse_algo (drop 5 v) of
           None \<Rightarrow> Inl (Conf_error ''invalid algo'')
         | Some al \<Rightarrow> Inr (a\<lparr>za_zone := (za_zone a)\<lparr>z_algo := al\<rparr>\<rparr>))
      else if has_prefix ''script='' v then
        (if drop 7 v = [] then Inl (Conf_error ''invalid script path'')
         else Inr (a\<lparr>za_zone := (za_zone a)\<lparr>z_script_path := drop 7 v\<rparr>, za_has_script := True\<rparr>))
      else Inl (Conf_error ''invalid parameter''))"

definition zone_loop :: "conf_env \<Rightarrow> ngx_str list \<Rightarrow> zone_args \<Rightarrow> zone_args conf_result" where
  "zone_loop C = conf_fold (zone_arg C)"

text \<open>The checks after the loop and the loading of the script.\<close>

definition zone_finish :: "conf_env \<Rightarrow> zone_args \<Rightarrow> zone conf_result" where
  "zone_finish C a =
     (let custom = (z_algo (za_zone a) = ALGO_CUSTOM) in
      if \<not> za_has_key a then Inl (Conf_error ''requires key='')
      else if za_has_rate a \<and> (za_has_requests a \<or> za_has_period a)
      then Inl (Conf_error ''rate= is mutually exclusive with requests=/period='')
      else if \<not> za_has_rate a \<and> \<not> (za_has_requests a \<and> za_has_period a)
      then Inl (Conf_error ''requires rate= or both requests= and period='')
      else if custom \<and> \<not> za_has_script a then Inl (Conf_error ''algo=custom requires script='')
      else if \<not> custom \<and> za_has_script a then Inl (Conf_error ''script= requires algo=custom'')
      else
        let body = (if za_has_script a
                    then (case script_read_file (ce_files C) (z_script_path (za_zone a)) of
                            (rc, out, ops) \<Rightarrow> if rc \<noteq> NGX_OK then None else out)
                    else Some [])
        in case body of
             None \<Rightarrow> Inl (Conf_error ''script'')
           | Some body \<Rightarrow>
               if over_lua_limit (za_requests a) (za_burst a)
               then Inl (Conf_error ''requests + burst must not exceed'')
               else Inr ((za_zone a)\<lparr>z_script_body := body, z_requests := za_requests a,
                           z_period := za_period a, z_burst := za_burst a\<rparr>))"

text \<open>\<open>ngx_http_ratelimit_zone\<close>: the arguments are the directive's parameters (\<open>value[1]\<close> on, at least
  two) and the outcome of \<open>ngx_array_push\<close>.\<close>

definition new_zone :: "ngx_str \<Rightarrow> zone" where
  "new_zone name = \<lparr>z_name = name, z_key = 0, z_requests = 0, z_period = 0, z_burst = 0,
     z_algo = ALGO_FIXED_WINDOW, z_script_path = [], z_script_body = [], z_script_sha = []\<rparr>"

definition ratelimit_zone :: "conf_env \<Rightarrow> bool \<Rightarrow> ngx_str list \<Rightarrow> main_conf \<Rightarrow> main_conf conf_result" where
  "ratelimit_zone C push_ok args M =
     (case args of [] \<Rightarrow> Inl (Conf_message ''invalid number of arguments'') | name # params \<Rightarrow>
      if find_zone (mc_zones M) name 0 \<noteq> None then Inl (Conf_error ''duplicate ratelimit zone'')
      else if \<not> push_ok then Inl (Conf_error [])
      else
        (case zone_loop C params \<lparr>za_zone = new_zone name, za_requests = 0, za_period = 0, za_burst = 0,
              za_has_rate = False, za_has_requests = False, za_has_period = False, za_has_key = False,
              za_has_script = False\<rparr> of
           Inl e \<Rightarrow> Inl e
         | Inr a \<Rightarrow>
             (case zone_finish C a of
                Inl e \<Rightarrow> Inl e
              | Inr z \<Rightarrow> Inr (M\<lparr>mc_zones := mc_zones M @ [z]\<rparr>))))"

section \<open>\<open>ratelimit\<close> and \<open>ratelimit_pass\<close>\<close>

definition ratelimit_arg :: "conf_env \<Rightarrow> ngx_str \<Rightarrow> loc_dir \<Rightarrow> loc_dir conf_result" where
  "ratelimit_arg C v d =
     (if has_prefix ''zone='' v then
        (if drop 5 v = [] then Inl (Conf_error ''invalid zone name'')
         else Inr (d\<lparr>ld_zone_name := drop 5 v\<rparr>))
      else if has_prefix ''burst='' v then
        (let burst = ce_atoi C (drop 6 v) in
         if sint burst < 0 then Inl (Conf_error ''invalid burst value'') else Inr (d\<lparr>ld_burst := burst\<rparr>))
      else if has_prefix ''quantity='' v then
        (let quantity = ce_atoi C (drop 9 v) in
         if sint quantity < 0 then Inl (Conf_error ''invalid quantity value'')
         else Inr (d\<lparr>ld_quantity := quantity\<rparr>))
      else Inl (Conf_error ''invalid parameter''))"

definition ratelimit_loop :: "conf_env \<Rightarrow> ngx_str list \<Rightarrow> loc_dir \<Rightarrow> loc_dir conf_result" where
  "ratelimit_loop C = conf_fold (ratelimit_arg C)"

text \<open>\<open>ngx_http_ratelimit\<close>.\<close>

definition ratelimit :: "conf_env \<Rightarrow> ngx_str list \<Rightarrow> loc_dir \<Rightarrow> loc_dir conf_result" where
  "ratelimit C args d =
     (if ld_zone_name d \<noteq> [] then Inl (Conf_message ''is duplicate'')
      else case ratelimit_loop C args d of
          Inl e \<Rightarrow> Inl e
        | Inr d \<Rightarrow> if ld_zone_name d = [] then Inl (Conf_error ''ratelimit requires zone='') else Inr d)"

text \<open>\<open>ngx_http_ratelimit_pass\<close>.\<close>

definition ratelimit_pass :: "conf_env \<Rightarrow> ngx_str \<Rightarrow> loc_dir \<Rightarrow> loc_dir conf_result" where
  "ratelimit_pass C value d =
     (if ld_upstream d \<noteq> None \<or> ld_complex_target d \<noteq> None then Inl (Conf_message ''is duplicate'')
      else if ce_variables C value \<noteq> 0 then
        (if \<not> ce_palloc_ok C then Inl (Conf_error [])
         else case ce_compile C value of
             None \<Rightarrow> Inl (Conf_error ''complex value'')
           | Some cv \<Rightarrow> Inr (d\<lparr>ld_complex_target := Some cv\<rparr>))
      else
        let d = d\<lparr>ld_complex_target := None\<rparr> in
        case ce_upstream_add C value of
          None \<Rightarrow> Inl (Conf_error ''upstream'')
        | Some us \<Rightarrow> Inr (d\<lparr>ld_upstream := Some us\<rparr>))"

section \<open>The directive table\<close>

definition status_bounds :: "int \<times> int" where
  "status_bounds = (400, 599)"

definition log_levels :: "(ngx_str \<times> u64) list" where
  "log_levels = [(''info'', 7), (''notice'', 6), (''warn'', 5), (''error'', 4)]"

definition on_error_values :: "(ngx_str \<times> u64) list" where
  "on_error_values = [(''deny'', ON_ERROR_DENY), (''allow'', ON_ERROR_ALLOW)]"

text \<open>The handlers of \<open>ngx_http_ratelimit_commands\<close>: the module's own, and nginx's slot setters with
  the field and the bounds or the enumeration they are given.\<close>

datatype setter =
  Set_zone | Set_ratelimit | Set_pass | Set_prefix | Set_quantity | Set_password | Set_database
| Set_headers | Set_log_level | Set_status | Set_on_error | Set_buffer_size | Set_connect_timeout
| Set_send_timeout | Set_read_timeout

datatype arity = Two_or_more | Take123 | Take1 | Flag_arg

definition commands :: "(ngx_str \<times> arity \<times> setter) list" where
  "commands =
     [(''ratelimit_zone'', Two_or_more, Set_zone),
      (''ratelimit'', Take123, Set_ratelimit),
      (''ratelimit_prefix'', Take1, Set_prefix),
      (''ratelimit_quantity'', Take1, Set_quantity),
      (''ratelimit_pass'', Take1, Set_pass),
      (''ratelimit_password'', Take1, Set_password),
      (''ratelimit_database'', Take1, Set_database),
      (''ratelimit_headers'', Flag_arg, Set_headers),
      (''ratelimit_log_level'', Take1, Set_log_level),
      (''ratelimit_status'', Take1, Set_status),
      (''ratelimit_on_error'', Take1, Set_on_error),
      (''ratelimit_buffer_size'', Take1, Set_buffer_size),
      (''ratelimit_connect_timeout'', Take1, Set_connect_timeout),
      (''ratelimit_send_timeout'', Take1, Set_send_timeout),
      (''ratelimit_read_timeout'', Take1, Set_read_timeout)]"

definition arity_ok :: "arity \<Rightarrow> nat \<Rightarrow> bool" where
  "arity_ok a n = (case a of Two_or_more \<Rightarrow> 2 \<le> n | Take123 \<Rightarrow> n \<in> {1, 2, 3} | Take1 \<Rightarrow> n = 1 | Flag_arg \<Rightarrow> n = 1)"

definition slot :: "'b option \<Rightarrow> ('b \<Rightarrow> loc_dir) \<Rightarrow> loc_dir conf_result" where
  "slot new f = (case new of None \<Rightarrow> Inl (Conf_error ''invalid value or duplicate'') | Some x \<Rightarrow> Inr (f x))"

definition location_setter :: "conf_env \<Rightarrow> setter \<Rightarrow> ngx_str list \<Rightarrow> loc_dir \<Rightarrow> loc_dir conf_result" where
  "location_setter C st args d =
     (let v = hd args in case st of
        Set_zone \<Rightarrow> Inl (Conf_message ''not allowed here'')
      | Set_ratelimit \<Rightarrow> ratelimit C args d
      | Set_pass \<Rightarrow> ratelimit_pass C v d
      | Set_prefix \<Rightarrow> slot (ce_set_str C v (ld_prefix d)) (\<lambda>x. d\<lparr>ld_prefix := Some x\<rparr>)
      | Set_quantity \<Rightarrow> slot (ce_set_num C None v (ld_quantity d)) (\<lambda>x. d\<lparr>ld_quantity := x\<rparr>)
      | Set_password \<Rightarrow> slot (ce_set_str C v (ld_password d)) (\<lambda>x. d\<lparr>ld_password := Some x\<rparr>)
      | Set_database \<Rightarrow> slot (ce_set_num C None v (ld_database d)) (\<lambda>x. d\<lparr>ld_database := x\<rparr>)
      | Set_headers \<Rightarrow> slot (ce_set_flag C v (ld_enable_headers d)) (\<lambda>x. d\<lparr>ld_enable_headers := x\<rparr>)
      | Set_log_level \<Rightarrow> slot (ce_set_enum C log_levels v (ld_limit_log_level d)) (\<lambda>x. d\<lparr>ld_limit_log_level := x\<rparr>)
      | Set_status \<Rightarrow> slot (ce_set_num C (Some status_bounds) v (ld_status_code d)) (\<lambda>x. d\<lparr>ld_status_code := x\<rparr>)
      | Set_on_error \<Rightarrow> slot (ce_set_enum C on_error_values v (ld_on_error d)) (\<lambda>x. d\<lparr>ld_on_error := x\<rparr>)
      | Set_buffer_size \<Rightarrow> slot (ce_set_size C v (ld_buffer_size d)) (\<lambda>x. d\<lparr>ld_buffer_size := x\<rparr>)
      | Set_connect_timeout \<Rightarrow> slot (ce_set_msec C v (ld_connect_timeout d)) (\<lambda>x. d\<lparr>ld_connect_timeout := x\<rparr>)
      | Set_send_timeout \<Rightarrow> slot (ce_set_msec C v (ld_send_timeout d)) (\<lambda>x. d\<lparr>ld_send_timeout := x\<rparr>)
      | Set_read_timeout \<Rightarrow> slot (ce_set_msec C v (ld_read_timeout d)) (\<lambda>x. d\<lparr>ld_read_timeout := x\<rparr>))"

text \<open>A directive of a location as nginx dispatches it, the directives of one block, and nested blocks
  (\<open>http\<close>, \<open>server\<close>, \<open>location\<close>, nested locations), each merged with the one around
  it.\<close>

definition location_directive :: "conf_env \<Rightarrow> ngx_str \<times> ngx_str list \<Rightarrow> loc_dir \<Rightarrow> loc_dir conf_result" where
  "location_directive C nargs d =
     (case nargs of (name, args) \<Rightarrow>
      case map_of commands name of
        None \<Rightarrow> Inl (Conf_message ''unknown directive'')
      | Some (a, st) \<Rightarrow>
          if \<not> arity_ok a (length args) then Inl (Conf_message ''invalid number of arguments'')
          else location_setter C st args d)"

definition location_block :: "conf_env \<Rightarrow> (ngx_str \<times> ngx_str list) list \<Rightarrow> loc_dir conf_result" where
  "location_block C ds =
     (case create_loc_conf (ce_palloc_ok C) of
        None \<Rightarrow> Inl (Conf_error [])
      | Some d \<Rightarrow> conf_fold (location_directive C) ds d)"

definition nested_block ::
    "conf_env \<Rightarrow> main_conf \<Rightarrow> (ngx_str \<times> ngx_str list) list \<Rightarrow> loc_dir \<Rightarrow> loc_dir conf_result" where
  "nested_block C M ds prev =
     (case location_block C ds of Inl e \<Rightarrow> Inl e | Inr d \<Rightarrow> merge_loc_conf C M prev d)"

text \<open>The configuration of a location: the directives of the \<open>http\<close> block, and those of every block
  down to the location.\<close>

definition location_conf :: "conf_env \<Rightarrow> main_conf \<Rightarrow> (ngx_str \<times> ngx_str list) list
    \<Rightarrow> (ngx_str \<times> ngx_str list) list list \<Rightarrow> loc_dir conf_result" where
  "location_conf C M http blocks =
     (case location_block C http of Inl e \<Rightarrow> Inl e | Inr d \<Rightarrow> conf_fold (nested_block C M) blocks d)"

text \<open>The \<open>ratelimit_zone\<close> directives of the \<open>http\<close> block, each with the outcome of
  \<open>ngx_array_push\<close>.\<close>

definition zone_directives :: "conf_env \<Rightarrow> (bool \<times> ngx_str list) list \<Rightarrow> main_conf conf_result" where
  "zone_directives C ds =
     (case create_main_conf True True of
        None \<Rightarrow> Inl (Conf_error [])
      | Some M \<Rightarrow> conf_fold (\<lambda>(push_ok, args). ratelimit_zone C push_ok args) ds M)"

section \<open>Postconfiguration\<close>

text \<open>The registrations of \<open>ngx_http_ratelimit_init\<close>: whether the phase handler and the variable
  could be added, and the index of the variable.\<close>

record registration =
  rg_phase_ok :: bool
  rg_variable_ok :: bool
  rg_index :: u64

text \<open>The digests of the custom zones; the loop runs over the array.\<close>

fun custom_shas :: "digest \<Rightarrow> zone list \<Rightarrow> zone list" where
  "custom_shas D [] = []"
| "custom_shas D (z # zs) =
     (if z_algo z = ALGO_CUSTOM then z\<lparr>z_script_sha := script_sha1 D (z_script_body z)\<rparr> else z)
       # custom_shas D zs"

text \<open>\<open>ngx_http_ratelimit_init\<close>: the return code, the main configuration and the script table.\<close>

definition init :: "digest \<Rightarrow> registration \<Rightarrow> main_conf \<Rightarrow> script list \<Rightarrow> int \<times> main_conf \<times> script list" where
  "init D G M T =
     (if \<not> rg_phase_ok G then (NGX_ERROR, M, T)
      else if \<not> rg_variable_ok G then (NGX_ERROR, M, T)
      else
        let M = M\<lparr>mc_done_index := rg_index G\<rparr> in
        if mc_done_index M = -1 then (NGX_ERROR, M, T)
        else
          let T = script_init D T;
              M = M\<lparr>mc_zones := custom_shas D (mc_zones M)\<rparr>
          in (NGX_OK, M, T))"

text \<open>\<open>ngx_http_ratelimit_done_variable\<close>: the value it fills in.\<close>

record variable_value =
  vv_valid :: bool
  vv_not_found :: bool

definition done_variable :: "variable_value \<Rightarrow> int \<times> variable_value" where
  "done_variable v = (NGX_OK, v\<lparr>vv_not_found := True\<rparr>)"

section \<open>Properties of a zone\<close>

lemma sint_lua_limit: "sint (of_int LUA_MAX_SAFE_INT :: u64) = LUA_MAX_SAFE_INT"
  by (simp add: LUA_MAX_SAFE_INT_def)

lemma over_lua_limit_iff:
  assumes "0 \<le> sint b"
  shows "over_lua_limit r b \<longleftrightarrow> LUA_MAX_SAFE_INT < sint r + sint b"
proof -
  have "sint b < 2 ^ 63" using sint_lt [of b] by simp
  then have "sint (of_int LUA_MAX_SAFE_INT - b) = LUA_MAX_SAFE_INT - sint b"
    using assms unfolding sint_word_ariths(2) sint_lua_limit
    by (intro signed_take_bit_int_eq_self) (simp_all add: LUA_MAX_SAFE_INT_def)
  then show ?thesis by (auto simp: over_lua_limit_def)
qed

lemma sint_uint_nonneg: "0 \<le> sint (w :: u64) \<Longrightarrow> uint w = sint w"
proof -
  assume "0 \<le> sint w"
  then have "\<not> bit (uint w) 63" by (simp add: sint_uint)
  then have "sint w = take_bit 63 (uint w)" by (simp add: sint_uint signed_take_bit_eq_if_positive)
  moreover have "take_bit 64 (uint w) = take_bit 63 (uint w)"
    using \<open>\<not> bit (uint w) 63\<close> take_bit_Suc_from_most [of 63 "uint w"] by simp
  moreover have "take_bit 64 (uint w) = uint w" 
    using unsigned_less [of w, where 'a = int] by (simp add: take_bit_int_eq_self)
  ultimately show ?thesis by simp
qed

section \<open>What is kept while the configuration is processed\<close>

locale conf_step =
  fixes step :: "'v \<Rightarrow> 'a \<Rightarrow> 'a conf_result" and given :: "'v \<Rightarrow> bool" and inv :: "'a \<Rightarrow> bool"
  assumes keeps: "given v \<Longrightarrow> inv a \<Longrightarrow> step v a = Inr a' \<Longrightarrow> inv a'"
begin

lemma fold_keeps:
  "(\<And>v. v \<in> set vs \<Longrightarrow> given v) \<Longrightarrow> inv a \<Longrightarrow> conf_fold step vs a = Inr a' \<Longrightarrow> inv a'"
  by (induction vs arbitrary: a) (auto split: sum.splits intro: keeps)

end

text \<open>What the parameters read so far establish.\<close>

definition args_ok :: "conf_env \<Rightarrow> ngx_str list \<Rightarrow> ngx_str \<Rightarrow> zone_args \<Rightarrow> bool" where
  "args_ok C params name a \<longleftrightarrow> z_name (za_zone a) = name \<and> 0 \<le> sint (za_burst a)
     \<and> (za_has_rate a \<longrightarrow> 0 < sint (za_requests a) \<and> 0 < sint (za_period a))
     \<and> (za_has_requests a \<longrightarrow> 0 < sint (za_requests a))
     \<and> (za_has_period a \<longrightarrow> 0 < sint (za_period a))
     \<and> (za_has_key a \<longrightarrow> (\<exists>p \<in> set params. has_prefix ''key='' p \<and> ce_compile C (drop 4 p) = Some (z_key (za_zone a))))"

lemma parse_rate_pos:
  "parse_rate C v = Inr (requests, period) \<Longrightarrow> 0 < sint requests \<and> period \<in> {1, 60, 3600}"
  by (auto simp: parse_rate_def Let_def split: if_splits)

lemma zone_arg_cases:
  assumes "zone_arg C v a = Inr a'"
  obtains cv where "has_prefix ''key='' v" "ce_compile C (drop 4 v) = Some cv"
      "a' = a\<lparr>za_zone := (za_zone a)\<lparr>z_key := cv\<rparr>, za_has_key := True\<rparr>"
    | requests period where "parse_rate C v = Inr (requests, period)"
      "a' = a\<lparr>za_requests := requests, za_period := period, za_has_rate := True\<rparr>"
    | requests where "0 < sint requests" "a' = a\<lparr>za_requests := requests, za_has_requests := True\<rparr>"
    | period where "0 < sint period" "a' = a\<lparr>za_period := period, za_has_period := True\<rparr>"
    | burst where "0 \<le> sint burst" "a' = a\<lparr>za_burst := burst\<rparr>"
    | al where "a' = a\<lparr>za_zone := (za_zone a)\<lparr>z_algo := al\<rparr>\<rparr>"
    | path where "a' = a\<lparr>za_zone := (za_zone a)\<lparr>z_script_path := path\<rparr>, za_has_script := True\<rparr>"
  using assms unfolding zone_arg_def Let_def
  by (simp_all add: not_le not_less drop_eq_Nil
        split: if_split_asm option.split_asm sum.split_asm prod.split_asm)
    (blast intro: that sym)+

lemma zone_arg_keeps:
  assumes v: "v \<in> set params" and ok: "args_ok C params name a" and step: "zone_arg C v a = Inr a'"
  shows "args_ok C params name a'"
  using step
proof (cases rule: zone_arg_cases)
  case (1 cv)
  with v ok show ?thesis by (auto simp: args_ok_def)
next
  case (2 requests period)
  with ok parse_rate_pos [OF 2(1)] show ?thesis by (auto simp: args_ok_def)
qed (use ok in \<open>simp_all add: args_ok_def\<close>)

interpretation zparams: conf_step "zone_arg C" "\<lambda>v. v \<in> set params" "args_ok C params name" for C params name
  by unfold_locales (rule zone_arg_keeps)

text \<open>A zone the configuration accepts, and the registry of zones.\<close>

definition zone_ok :: "conf_env \<Rightarrow> zone \<Rightarrow> bool" where
  "zone_ok C z \<longleftrightarrow> 0 < sint (z_requests z) \<and> 0 < sint (z_period z) \<and> 0 \<le> sint (z_burst z)
     \<and> sint (z_requests z) + sint (z_burst z) \<le> LUA_MAX_SAFE_INT
     \<and> (if z_algo z = ALGO_CUSTOM
        then \<exists>ops. script_read_file (ce_files C) (z_script_path z) = (NGX_OK, Some (z_script_body z), ops)
        else z_script_body z = [])"

lemma zone_finish_ok:
  assumes "zone_finish C a = Inr z" "args_ok C params name a"
  shows "z_name z = name \<and> zone_ok C z
    \<and> (\<exists>p \<in> set params. has_prefix ''key='' p \<and> ce_compile C (drop 4 p) = Some (z_key z))"
proof -
  have o: "\<not> over_lua_limit (za_requests a) (za_burst a)"
    using assms(1) by (auto simp: zone_finish_def Let_def split: if_splits option.splits prod.splits)
  then have "sint (za_requests a) + sint (za_burst a) \<le> LUA_MAX_SAFE_INT"
    using assms(2) by (simp add: over_lua_limit_iff args_ok_def)
  with assms show ?thesis
    by (auto simp: zone_finish_def zone_ok_def args_ok_def Let_def split: if_splits option.splits prod.splits)
qed

lemma find_zone_Some:
  "find_zone zs name i = Some j \<Longrightarrow> i \<le> j \<and> j - i < length zs \<and> z_name (zs ! (j - i)) = name"
  by (induction zs name i rule: find_zone.induct)
    (auto split: if_splits simp: Suc_diff_le dest: le_less_trans)

lemma find_zone_None: "find_zone zs name i = None \<longleftrightarrow> name \<notin> z_name ` set zs"
  by (induction zs name i rule: find_zone.induct) auto

definition registry_ok :: "conf_env \<Rightarrow> main_conf \<Rightarrow> bool" where
  "registry_ok C M \<longleftrightarrow> distinct (map z_name (mc_zones M)) \<and> (\<forall>z \<in> set (mc_zones M). zone_ok C z)"

lemma ratelimit_zone_adds:
  assumes "ratelimit_zone C push_ok (name # params) M = Inr M'"
  obtains z where "M' = M\<lparr>mc_zones := mc_zones M @ [z]\<rparr>" "z_name z = name" "zone_ok C z"
    "name \<notin> z_name ` set (mc_zones M)"
    "\<exists>p \<in> set params. has_prefix ''key='' p \<and> ce_compile C (drop 4 p) = Some (z_key z)"
proof -
  let ?a0 = "\<lparr>za_zone = new_zone name, za_requests = 0, za_period = 0, za_burst = 0,
      za_has_rate = False, za_has_requests = False, za_has_period = False, za_has_key = False,
      za_has_script = False\<rparr>"
  from assms obtain a z where new: "find_zone (mc_zones M) name 0 = None"
    and loop: "zone_loop C params ?a0 = Inr a" and fin: "zone_finish C a = Inr z"
    and M': "M' = M\<lparr>mc_zones := mc_zones M @ [z]\<rparr>"
    by (auto simp: ratelimit_zone_def split: if_splits sum.splits)
  have "args_ok C params name ?a0" by (simp add: args_ok_def new_zone_def)
  then have "args_ok C params name a"
    using loop zparams.fold_keeps [of params params] by (simp add: zone_loop_def)
  from zone_finish_ok [OF fin this] new M' that show thesis
    by (auto simp: find_zone_None)
qed

lemma ratelimit_zone_keeps:
  assumes "registry_ok C M" "ratelimit_zone C push_ok args M = Inr M'"
  shows "registry_ok C M'"
proof (cases args)
  case Nil
  with assms(2) show ?thesis by (simp add: ratelimit_zone_def)
next
  case (Cons name params)
  from ratelimit_zone_adds [OF assms(2) [unfolded Cons]] obtain z where
    "M' = M\<lparr>mc_zones := mc_zones M @ [z]\<rparr>" "z_name z = name" "zone_ok C z" "name \<notin> z_name ` set (mc_zones M)" .
  with assms(1) show ?thesis by (auto simp: registry_ok_def)
qed

interpretation zdirs: conf_step "\<lambda>(push_ok, args). ratelimit_zone C push_ok args" "\<lambda>_. True" "registry_ok C" for C
  by unfold_locales (auto intro: ratelimit_zone_keeps)

lemma zone_directives_ok: "zone_directives C ds = Inr M \<Longrightarrow> registry_ok C M"
  using zdirs.fold_keeps [of ds C "\<lparr>mc_zones = [], mc_done_index = 0\<rparr>" M]
  by (simp add: zone_directives_def create_main_conf_def registry_ok_def)

section \<open>Locations\<close>

text \<open>The documented behaviour of nginx's slot setters: a number is within the bounds given, an
  enumerated value is one of the table.\<close>

definition setter_contract :: "conf_env \<Rightarrow> bool" where
  "setter_contract C \<longleftrightarrow>
     (\<forall>lo hi v old new. ce_set_num C (Some (lo, hi)) v old = Some new \<longrightarrow> lo \<le> sint new \<and> sint new \<le> hi)
     \<and> (\<forall>tbl v old new. ce_set_enum C tbl v old = Some new \<longrightarrow> new \<in> snd ` set tbl)"

text \<open>The settings of one block, and of a block merged with the ones around it.\<close>

definition settings_ok :: "loc_dir \<Rightarrow> bool" where
  "settings_ok d \<longleftrightarrow> (ld_burst d = CONF_UNSET \<or> 0 \<le> sint (ld_burst d))
     \<and> (ld_status_code d = CONF_UNSET \<or> 400 \<le> sint (ld_status_code d) \<and> sint (ld_status_code d) \<le> 599)
     \<and> ld_on_error d \<in> {CONF_UNSET, ON_ERROR_DENY, ON_ERROR_ALLOW}"

definition block_ok :: "loc_dir \<Rightarrow> bool" where
  "block_ok d \<longleftrightarrow> ld_zone d = None \<and> settings_ok d"

definition zone_found :: "main_conf \<Rightarrow> loc_dir \<Rightarrow> bool" where
  "zone_found M d \<longleftrightarrow> (case ld_zone d of None \<Rightarrow> True
     | Some i \<Rightarrow> i < length (mc_zones M) \<and> z_name (mc_zones M ! i) = ld_zone_name d)"

definition outer_ok :: "main_conf \<Rightarrow> loc_dir \<Rightarrow> bool" where
  "outer_ok M d \<longleftrightarrow> zone_found M d \<and> settings_ok d"

lemma block_ok_updates [simp]:
  "block_ok (d\<lparr>ld_zone_name := n\<rparr>) = block_ok d" "block_ok (d\<lparr>ld_upstream := us\<rparr>) = block_ok d"
  "block_ok (d\<lparr>ld_connect_timeout := w\<rparr>) = block_ok d" "block_ok (d\<lparr>ld_send_timeout := w\<rparr>) = block_ok d"
  "block_ok (d\<lparr>ld_read_timeout := w\<rparr>) = block_ok d" "block_ok (d\<lparr>ld_buffer_size := w\<rparr>) = block_ok d"
  "block_ok (d\<lparr>ld_complex_target := cv\<rparr>) = block_ok d" "block_ok (d\<lparr>ld_password := s\<rparr>) = block_ok d"
  "block_ok (d\<lparr>ld_database := w\<rparr>) = block_ok d" "block_ok (d\<lparr>ld_enable_headers := w\<rparr>) = block_ok d"
  "block_ok (d\<lparr>ld_limit_log_level := w\<rparr>) = block_ok d" "block_ok (d\<lparr>ld_prefix := s\<rparr>) = block_ok d"
  "block_ok (d\<lparr>ld_quantity := w\<rparr>) = block_ok d"
  by (simp_all add: block_ok_def settings_ok_def)

lemma block_ok_checked [simp]:
  "block_ok d \<Longrightarrow> 0 \<le> sint w \<Longrightarrow> block_ok (d\<lparr>ld_burst := w\<rparr>)"
  "block_ok d \<Longrightarrow> 400 \<le> sint w \<Longrightarrow> sint w \<le> 599 \<Longrightarrow> block_ok (d\<lparr>ld_status_code := w\<rparr>)"
  "block_ok d \<Longrightarrow> w \<in> {ON_ERROR_DENY, ON_ERROR_ALLOW} \<Longrightarrow> block_ok (d\<lparr>ld_on_error := w\<rparr>)"
  by (auto simp: block_ok_def settings_ok_def)

lemma ratelimit_arg_keeps:
  "block_ok d \<Longrightarrow> ratelimit_arg C v d = Inr d' \<Longrightarrow> block_ok d'"
  by (auto simp: ratelimit_arg_def Let_def split: if_splits)

interpretation rparams: conf_step "ratelimit_arg C" "\<lambda>_. True" block_ok for C
  by unfold_locales (rule ratelimit_arg_keeps)

lemma ratelimit_keeps: "block_ok d \<Longrightarrow> ratelimit C args d = Inr d' \<Longrightarrow> block_ok d'"
  using rparams.fold_keeps [of args d C]
  by (auto simp: ratelimit_def ratelimit_loop_def split: if_splits sum.splits)

lemma ratelimit_pass_keeps: "block_ok d \<Longrightarrow> ratelimit_pass C v d = Inr d' \<Longrightarrow> block_ok d'"
  by (auto simp: ratelimit_pass_def Let_def split: if_splits option.splits)

lemma slot_Inr: "slot new f = Inr d' \<longleftrightarrow> (\<exists>x. new = Some x \<and> d' = f x)"
  by (auto simp: slot_def split: option.splits)

lemma location_directive_keeps:
  assumes C: "setter_contract C" and d: "block_ok d" and step: "location_directive C nargs d = Inr d'"
  shows "block_ok d'"
proof -
  obtain args st where st: "location_setter C st args d = Inr d'"
    using step by (auto simp: location_directive_def split: prod.splits option.splits if_splits)
  have num: "ce_set_num C (Some (lo, hi)) v old = Some new \<Longrightarrow> lo \<le> sint new \<and> sint new \<le> hi" for lo hi v old new
    using C by (simp add: setter_contract_def)
  have enum: "ce_set_enum C tbl v old = Some new \<Longrightarrow> new \<in> snd ` set tbl" for tbl v old new
    using C by (simp add: setter_contract_def)
  show ?thesis
  proof (cases st)
    case Set_ratelimit
    with st d show ?thesis by (simp add: location_setter_def Let_def ratelimit_keeps)
  next
    case Set_pass
    with st d show ?thesis by (simp add: location_setter_def Let_def ratelimit_pass_keeps)
  next
    case Set_status
    with st obtain w where "ce_set_num C (Some (400, 599)) (hd args) (ld_status_code d) = Some w"
      "d' = d\<lparr>ld_status_code := w\<rparr>"
      by (auto simp: location_setter_def Let_def slot_Inr status_bounds_def)
    with num d show ?thesis by simp
  next
    case Set_on_error
    with st obtain w where "ce_set_enum C on_error_values (hd args) (ld_on_error d) = Some w"
      "d' = d\<lparr>ld_on_error := w\<rparr>"
      by (auto simp: location_setter_def Let_def slot_Inr)
    moreover from enum [OF this(1)] have "w \<in> {ON_ERROR_DENY, ON_ERROR_ALLOW}"
      by (auto simp: on_error_values_def)
    ultimately show ?thesis using d by simp
  next
    case Set_zone
    with st show ?thesis by (simp add: location_setter_def Let_def)
  qed (use st d in \<open>clarsimp simp: location_setter_def Let_def slot_Inr\<close>)+
qed

text \<open>The same under the contract of the setters, so that the property of one directive is one of
  the block.\<close>

interpretation ldirs: conf_step "location_directive C" "\<lambda>_. setter_contract C" block_ok for C
  by unfold_locales (rule location_directive_keeps)

lemma created_ok: "create_loc_conf ok = Some d \<Longrightarrow> block_ok d"
  by (auto simp: create_loc_conf_def block_ok_def settings_ok_def split: if_splits)

lemma location_block_ok:
  assumes "setter_contract C" "location_block C ds = Inr d"
  shows "block_ok d"
  using assms created_ok ldirs.fold_keeps [of ds C]
  by (auto simp: location_block_def split: option.splits)

lemma resolve_zone_ok:
  assumes "resolve_zone M prev conf = Inr d" "zone_found M prev" "ld_zone conf = None"
  shows "zone_found M d" "ld_zone_name d \<noteq> [] \<longrightarrow> ld_zone d \<noteq> None" "ld_zone_name d = [] \<longrightarrow> ld_zone d = ld_zone prev"
    "d = conf\<lparr>ld_zone_name := ld_zone_name d, ld_zone := ld_zone d\<rparr>"
  using assms find_zone_Some [of "mc_zones M" "ld_zone_name conf" 0] find_zone_Some [of "mc_zones M" "ld_zone_name prev" 0]
  by (auto simp: resolve_zone_def zone_found_def Let_def split: if_splits option.splits)

text \<open>What merging establishes, field by field.\<close>

lemma merge_value_cases: "merge_value a b c = a \<or> a = CONF_UNSET \<and> (merge_value a b c = b \<or> b = CONF_UNSET \<and> merge_value a b c = c)"
  by (auto simp: merge_value_def)

lemma resolve_zone_rest:
  "resolve_zone M prev conf = Inr d \<Longrightarrow> d = conf\<lparr>ld_zone_name := ld_zone_name d, ld_zone := ld_zone d\<rparr>"
  by (auto simp: resolve_zone_def Let_def split: if_splits option.splits)

lemma merge_loc_conf_Inr:
  assumes "merge_loc_conf C M prev conf = Inr d"
  obtains n z where "resolve_zone M prev conf = Inr (conf\<lparr>ld_zone_name := n, ld_zone := z\<rparr>)"
    "d = \<lparr>ld_zone_name = n, ld_zone = z,
       ld_burst = merge_value (ld_burst conf) (ld_burst prev) CONF_UNSET,
       ld_upstream = (if ld_upstream conf = None then ld_upstream prev else ld_upstream conf),
       ld_connect_timeout = merge_value (ld_connect_timeout conf) (ld_connect_timeout prev) 60000,
       ld_send_timeout = merge_value (ld_send_timeout conf) (ld_send_timeout prev) 60000,
       ld_read_timeout = merge_value (ld_read_timeout conf) (ld_read_timeout prev) 60000,
       ld_buffer_size = merge_value (ld_buffer_size conf) (ld_buffer_size prev) (ce_pagesize C),
       ld_complex_target = (if ld_complex_target conf = None then ld_complex_target prev else ld_complex_target conf),
       ld_password = merge_str_value (ld_password conf) (ld_password prev),
       ld_database = merge_value (ld_database conf) (ld_database prev) CONF_UNSET,
       ld_enable_headers = merge_value (ld_enable_headers conf) (ld_enable_headers prev) 0,
       ld_status_code = merge_value (ld_status_code conf) (ld_status_code prev) ST_TOO_MANY_REQUESTS,
       ld_limit_log_level = merge_value (ld_limit_log_level conf) (ld_limit_log_level prev) 4,
       ld_on_error = merge_value (ld_on_error conf) (ld_on_error prev) ON_ERROR_DENY,
       ld_prefix = merge_str_value (ld_prefix conf) (ld_prefix prev),
       ld_quantity = merge_value (ld_quantity conf) (ld_quantity prev) 1\<rparr>"
    "z \<noteq> None \<Longrightarrow> ld_upstream d \<noteq> None \<or> ld_complex_target d \<noteq> None"
    "\<And>i. z = Some i \<Longrightarrow> ld_burst d \<noteq> CONF_UNSET \<Longrightarrow> \<not> over_lua_limit (z_requests (mc_zones M ! i)) (ld_burst d)"
proof -
  obtain conf1 where "resolve_zone M prev conf = Inr conf1"
    using assms by (auto simp: merge_loc_conf_def split: sum.splits)
  then have rz: "resolve_zone M prev conf = Inr (conf\<lparr>ld_zone_name := ld_zone_name conf1, ld_zone := ld_zone conf1\<rparr>)"
    using resolve_zone_rest by metis
  show thesis
    using assms unfolding merge_loc_conf_def rz Let_def
    by (cases conf; intro that [OF rz])
      (auto split: if_split_asm option.split_asm)
qed

text \<open>A merged block: it has every setting, and with a zone a target for it.\<close>

definition merged_ok :: "main_conf \<Rightarrow> loc_dir \<Rightarrow> bool" where
  "merged_ok M d \<longleftrightarrow> outer_ok M d
     \<and> (ld_zone_name d \<noteq> [] \<longrightarrow> ld_zone d \<noteq> None)
     \<and> 400 \<le> sint (ld_status_code d) \<and> sint (ld_status_code d) \<le> 599
     \<and> ld_on_error d \<in> {ON_ERROR_DENY, ON_ERROR_ALLOW}
     \<and> (\<forall>i. ld_zone d = Some i \<longrightarrow> (ld_upstream d \<noteq> None \<or> ld_complex_target d \<noteq> None)
          \<and> (ld_burst d \<noteq> CONF_UNSET \<longrightarrow> \<not> over_lua_limit (z_requests (mc_zones M ! i)) (ld_burst d)))"

lemma merge_value_in:
  "a = CONF_UNSET \<or> P a \<Longrightarrow> b = CONF_UNSET \<or> P b \<Longrightarrow> c = CONF_UNSET \<or> P c
    \<Longrightarrow> merge_value a b c = CONF_UNSET \<or> P (merge_value a b c)"
  "a = CONF_UNSET \<or> P a \<Longrightarrow> b = CONF_UNSET \<or> P b \<Longrightarrow> P c \<Longrightarrow> P (merge_value a b c)"
  by (auto simp: merge_value_def)

lemma merge_keeps:
  assumes m: "merge_loc_conf C M prev conf = Inr d" and o: "outer_ok M prev" and b: "block_ok conf"
  shows "merged_ok M d"
  using m
proof (cases rule: merge_loc_conf_Inr)
  case (1 n z)
  from b have so: "settings_ok conf" "settings_ok prev" "ld_zone conf = None" "zone_found M prev"
    using o by (simp_all add: block_ok_def outer_ok_def)
  have "ld_zone d = z" "ld_zone_name d = n" by (simp_all add: 1(2))
  then have z: "zone_found M d" "ld_zone_name d \<noteq> [] \<longrightarrow> ld_zone d \<noteq> None"
    using resolve_zone_ok(1,2) [OF 1(1) so(4,3)]
    by (auto simp: zone_found_def split: option.splits)
  have burst: "ld_burst d = CONF_UNSET \<or> 0 \<le> sint (ld_burst d)"
    using so(1,2) merge_value_in(1) [of "ld_burst conf" "\<lambda>w. 0 \<le> sint w" "ld_burst prev" CONF_UNSET]
    by (simp add: 1(2) settings_ok_def)
  have status: "400 \<le> sint (ld_status_code d) \<and> sint (ld_status_code d) \<le> 599"
    using so(1,2) merge_value_in(2) [of "ld_status_code conf" "\<lambda>w. 400 \<le> sint w \<and> sint w \<le> 599"
        "ld_status_code prev" ST_TOO_MANY_REQUESTS]
    by (simp add: 1(2) settings_ok_def)
  have on_error: "ld_on_error d \<in> {ON_ERROR_DENY, ON_ERROR_ALLOW}"
    using so(1,2) merge_value_in(2) [of "ld_on_error conf" "\<lambda>w. w \<in> {ON_ERROR_DENY, ON_ERROR_ALLOW}"
        "ld_on_error prev" ON_ERROR_DENY]
    by (simp add: 1(2) settings_ok_def)
  have "settings_ok d" using burst status on_error by (auto simp: settings_ok_def)
  with z status on_error 1(3,4) \<open>ld_zone d = z\<close> show ?thesis by (auto simp: merged_ok_def outer_ok_def)
qed

lemma nested_block_merged:
  assumes "setter_contract C" "outer_ok M prev" "nested_block C M ds prev = Inr d"
  shows "merged_ok M d"
  using assms merge_keeps location_block_ok [OF assms(1), of ds]
  by (auto simp: nested_block_def split: sum.splits)

interpretation nested: conf_step "nested_block C M" "\<lambda>_. setter_contract C" "outer_ok M" for C M
  by unfold_locales (auto dest: nested_block_merged simp: merged_ok_def)

lemma conf_fold_last:
  assumes "conf_fold f (vs @ [v]) a = Inr c"
  obtains b where "conf_fold f vs a = Inr b" "f v b = Inr c"
  using assms by (induction vs arbitrary: a) (auto split: sum.splits)

lemma location_conf_merged:
  assumes C: "setter_contract C" and "location_conf C M http blocks = Inr d" "blocks \<noteq> []"
  shows "merged_ok M d"
proof -
  obtain vs v where vs: "blocks = vs @ [v]" using assms(3) by (cases blocks rule: rev_cases) auto
  obtain d0 where d0: "location_block C http = Inr d0" "conf_fold (nested_block C M) blocks d0 = Inr d"
    using assms(2) by (auto simp: location_conf_def split: sum.splits)
  have "outer_ok M d0"
    using location_block_ok [OF C d0(1)] by (simp add: block_ok_def outer_ok_def zone_found_def)
  moreover obtain b where b: "conf_fold (nested_block C M) vs d0 = Inr b" "nested_block C M v b = Inr d"
    using d0(2) vs by (auto elim: conf_fold_last)
  ultimately have "outer_ok M b" using C nested.fold_keeps [of vs C M d0 b] by blast
  with C b(2) show ?thesis by (blast intro: nested_block_merged)
qed

end
