(* ===== verification/RL_Loading.thy ===== *)
theory RL_Loading
  imports RL_Config RL_System
begin

text \<open>
  What a configuration that loads guarantees: how settings are inherited, which zones are accepted,
  and that a location with a zone meets the assumptions the request-time theorems make.
\<close>

section \<open>Inheritance\<close>

text \<open>The specification of inheritance: the innermost block that sets a value decides, and a value no
  block sets has its default.  The blocks are listed from the innermost outwards.\<close>

fun setting :: "(loc_dir \<Rightarrow> u64) \<Rightarrow> u64 \<Rightarrow> loc_dir list \<Rightarrow> u64" where
  "setting g dflt [] = dflt"
| "setting g dflt (d # ds) = (if g d \<noteq> CONF_UNSET then g d else setting g dflt ds)"

text \<open>The values that merge with a default, and the directive text each block was read from.\<close>

definition inherited :: "conf_env \<Rightarrow> ((loc_dir \<Rightarrow> u64) \<times> u64) list" where
  "inherited C =
     [(ld_burst, CONF_UNSET), (ld_connect_timeout, 60000), (ld_send_timeout, 60000),
      (ld_read_timeout, 60000), (ld_buffer_size, ce_pagesize C), (ld_database, CONF_UNSET),
      (ld_enable_headers, 0), (ld_status_code, 429), (ld_limit_log_level, 4),
      (ld_on_error, ON_ERROR_DENY), (ld_quantity, 1)]"

lemma merge_inherited:
  assumes "merge_loc_conf C M prev conf = Inr d" "(g, dflt) \<in> set (inherited C)"
  shows "g d = merge_value (g conf) (g prev) dflt"
  using assms(1)
proof (cases rule: merge_loc_conf_Inr)
  case (1 n z)
  show ?thesis using assms(2) by (auto simp: inherited_def 1(2))
qed

lemma setting_dflt:
  "setting g dflt ds = (if setting g CONF_UNSET ds = CONF_UNSET then dflt else setting g CONF_UNSET ds)"
  by (induction ds) auto

lemma merge_setting:
  "merge_value a (setting g dflt ds) dflt = (if a \<noteq> CONF_UNSET then a else setting g dflt ds)"
  "merge_value a (setting g CONF_UNSET ds) dflt = (if a \<noteq> CONF_UNSET then a else setting g dflt ds)"
  using setting_dflt [of g dflt ds] by (auto simp: merge_value_def)

definition read_blocks :: "conf_env \<Rightarrow> (ngx_str \<times> ngx_str list) list list \<Rightarrow> loc_dir list" where
  "read_blocks C bs = map (\<lambda>b. projr (location_block C b)) bs"

lemma nested_setting:
  assumes "conf_fold (nested_block C M) blocks prev = Inr d" "blocks \<noteq> []" "(g, dflt) \<in> set (inherited C)"
    "g prev = setting g dflt outer \<or> g prev = setting g CONF_UNSET outer"
  shows "(\<forall>b \<in> set blocks. \<exists>d. location_block C b = Inr d)
    \<and> g d = setting g dflt (rev (read_blocks C blocks) @ outer)"
  using assms
proof (induction blocks arbitrary: prev outer)
  case (Cons b bs)
  from Cons.prems(1) obtain prev' where nb: "nested_block C M b prev = Inr prev'"
    and rest: "conf_fold (nested_block C M) bs prev' = Inr d"
    by (auto split: sum.splits)
  from nb obtain conf where conf: "location_block C b = Inr conf" and m: "merge_loc_conf C M prev conf = Inr prev'"
    by (auto simp: nested_block_def split: sum.splits)
  have g: "g prev' = setting g dflt (conf # outer)"
    using merge_inherited [OF m Cons.prems(3)] Cons.prems(4) by (auto simp: merge_setting)
  show ?case
  proof (cases "bs = []")
    case True
    with conf g rest show ?thesis by (simp add: read_blocks_def)
  next
    case False
    with Cons.IH [OF rest _ Cons.prems(3), of "conf # outer"] g conf show ?thesis by (simp add: read_blocks_def)
  qed
qed simp

text \<open>C21: Inheritance: when the configuration of a location is accepted, every block around it was read
  without an error, and each of the eleven numeric settings has the value of the innermost block
  that sets it, and its documented default when no block does.\<close>

theorem settings_inherited:
  assumes "location_conf C M http blocks = Inr d" "blocks \<noteq> []"
  shows "(\<forall>b \<in> set (http # blocks). \<exists>c. location_block C b = Inr c)
    \<and> (\<forall>(g, dflt) \<in> set (inherited C). g d = setting g dflt (rev (read_blocks C (http # blocks))))"
proof -
  obtain d0 where d0: "location_block C http = Inr d0" "conf_fold (nested_block C M) blocks d0 = Inr d"
    using assms(1) by (auto simp: location_conf_def split: sum.splits)
  have "(\<forall>b \<in> set blocks. \<exists>c. location_block C b = Inr c)
      \<and> g d = setting g dflt (rev (read_blocks C blocks) @ [d0])" if "(g, dflt) \<in> set (inherited C)" for g dflt
    using d0(2) assms(2) that by (rule nested_setting) auto
  moreover have "(ld_burst, CONF_UNSET) \<in> set (inherited C)" by (simp add: inherited_def)
  ultimately show ?thesis using d0(1) by (fastforce simp: read_blocks_def)
qed

text \<open>Services with nginx's documented behaviour on the values of the sample configuration.\<close>

definition atoi :: "ngx_str \<Rightarrow> u64" where
  "atoi s = (if s = [] \<or> \<not> list_all is_digit s \<or> 2 ^ 63 \<le> dec_value s then -1 else of_nat (dec_value s))"

definition sample_conf :: conf_env where
  "sample_conf = \<lparr>ce_atoi = atoi, ce_parse_time = atoi, ce_compile = (\<lambda>s. Some (length s)),
     ce_variables = (\<lambda>s. length (filter (\<lambda>c. c = CHR ''$'') s)),
     ce_upstream_add = (\<lambda>s. Some \<lparr>us_host = s, us_port = 0\<rparr>),
     ce_set_num = (\<lambda>bounds s old.
        let v = atoi s in
        if old \<noteq> CONF_UNSET \<or> v = -1 then None
        else case bounds of None \<Rightarrow> Some v
           | Some (lo, hi) \<Rightarrow> if lo \<le> sint v \<and> sint v \<le> hi then Some v else None),
     ce_set_enum = (\<lambda>tbl s old. if old \<noteq> CONF_UNSET then None else map_of tbl s),
     ce_set_flag = (\<lambda>s old. if old \<noteq> CONF_UNSET then None
        else if s = ''on'' then Some 1 else if s = ''off'' then Some 0 else None),
     ce_set_size = (\<lambda>s old. if old \<noteq> CONF_UNSET \<or> atoi s = -1 then None else Some (atoi s)),
     ce_set_msec = (\<lambda>s old. if old \<noteq> CONF_UNSET \<or> atoi s = -1 then None else Some (atoi s)),
     ce_set_str = (\<lambda>s old. if old \<noteq> None then None else Some s),
     ce_pagesize = 4096, ce_palloc_ok = True, ce_files = \<lparr>fs_full_name = Some, fs_open = (\<lambda>_. None)\<rparr>\<rparr>"

lemma sample_contract: "setter_contract sample_conf"
  by (auto simp: setter_contract_def sample_conf_def Let_def split: if_splits
      intro: rev_image_eqI dest!: map_of_SomeD)

definition sample_http :: "(ngx_str \<times> ngx_str list) list" where
  "sample_http = [(''ratelimit_pass'', [''$pool'']), (''ratelimit_status'', [''503''])]"

definition sample_location :: "(ngx_str \<times> ngx_str list) list" where
  "sample_location = [(''ratelimit'', [''zone=api'', ''burst=7'']), (''ratelimit_pass'', [''redis''])]"

definition sample_zones :: "(bool \<times> ngx_str list) list" where
  "sample_zones = [(True, [''api'', ''key=k'', ''rate=10r/m'', ''burst=5''])]"

lemmas sample_conf_defs = sample_conf_def sample_http_def sample_location_def sample_zones_def atoi_def

definition sample_main :: main_conf where
  "sample_main = \<lparr>mc_zones = [\<lparr>z_name = ''api'', z_key = 1, z_requests = 10, z_period = 60, z_burst = 5,
     z_algo = ALGO_FIXED_WINDOW, z_script_path = [], z_script_body = [], z_script_sha = []\<rparr>], mc_done_index = 0\<rparr>"

lemmas sample_eval = create_main_conf_def create_loc_conf_def has_prefix_def over_lua_limit_def LUA_MAX_SAFE_INT_def
  is_digit_def byte_def digit_val_def Let_def

lemma sample_zone_arg:
  "zone_arg sample_conf ''key=k'' a = Inr (a\<lparr>za_zone := (za_zone a)\<lparr>z_key := 1\<rparr>, za_has_key := True\<rparr>)"
  "zone_arg sample_conf ''rate=10r/m'' a = Inr (a\<lparr>za_requests := 10, za_period := 60, za_has_rate := True\<rparr>)"
  "zone_arg sample_conf ''burst=5'' a = Inr (a\<lparr>za_burst := 5\<rparr>)"
  by (simp_all add: zone_arg_def parse_rate_def sample_conf_defs sample_eval)

lemma sample_zones_load: "zone_directives sample_conf sample_zones = Inr sample_main"
  by (simp add: zone_directives_def sample_zones_def ratelimit_zone_def zone_loop_def sample_zone_arg
      zone_finish_def new_zone_def sample_main_def sample_eval)

lemma sample_http_block:
  "location_block sample_conf sample_http = Inr \<lparr>ld_zone_name = [], ld_zone = None, ld_burst = CONF_UNSET,
     ld_upstream = None, ld_connect_timeout = CONF_UNSET, ld_send_timeout = CONF_UNSET,
     ld_read_timeout = CONF_UNSET, ld_buffer_size = CONF_UNSET, ld_complex_target = Some 5, ld_password = None,
     ld_database = CONF_UNSET, ld_enable_headers = CONF_UNSET, ld_status_code = 503,
     ld_limit_log_level = CONF_UNSET, ld_on_error = CONF_UNSET, ld_prefix = None, ld_quantity = CONF_UNSET\<rparr>"
  by (simp add: location_block_def location_directive_def commands_def arity_ok_def location_setter_def
      ratelimit_pass_def slot_def status_bounds_def sample_conf_defs sample_eval)

lemma sample_location_block:
  "location_block sample_conf sample_location = Inr \<lparr>ld_zone_name = ''api'', ld_zone = None, ld_burst = 7,
     ld_upstream = Some \<lparr>us_host = ''redis'', us_port = 0\<rparr>, ld_connect_timeout = CONF_UNSET,
     ld_send_timeout = CONF_UNSET, ld_read_timeout = CONF_UNSET, ld_buffer_size = CONF_UNSET,
     ld_complex_target = None, ld_password = None,
     ld_database = CONF_UNSET, ld_enable_headers = CONF_UNSET, ld_status_code = CONF_UNSET,
     ld_limit_log_level = CONF_UNSET, ld_on_error = CONF_UNSET, ld_prefix = None, ld_quantity = CONF_UNSET\<rparr>"
  by (simp add: location_block_def location_directive_def commands_def arity_ok_def location_setter_def
      ratelimit_pass_def ratelimit_def ratelimit_loop_def ratelimit_arg_def sample_conf_defs sample_eval)

definition sample_merged :: loc_dir where
  "sample_merged = \<lparr>ld_zone_name = ''api'', ld_zone = Some 0, ld_burst = 7,
     ld_upstream = Some \<lparr>us_host = ''redis'', us_port = 0\<rparr>, ld_connect_timeout = 60000,
     ld_send_timeout = 60000, ld_read_timeout = 60000, ld_buffer_size = 4096,
     ld_complex_target = Some 5, ld_password = Some [],
     ld_database = CONF_UNSET, ld_enable_headers = 0, ld_status_code = 503,
     ld_limit_log_level = 4, ld_on_error = 0, ld_prefix = Some [], ld_quantity = 1\<rparr>"

lemma sample_pagesize: "ce_pagesize sample_conf = 4096"
  by (simp add: sample_conf_def)

lemma sample_location_conf:
  "location_conf sample_conf sample_main sample_http [sample_location] = Inr sample_merged"
  by (simp add: location_conf_def nested_block_def sample_http_block sample_location_block merge_loc_conf_def
      resolve_zone_def merge_value_def merge_str_value_def sample_main_def sample_merged_def sample_pagesize
      over_lua_limit_def LUA_MAX_SAFE_INT_def Let_def)

theorem settings_inherited_witness:
  "ld_status_code sample_merged = 503 \<and> ld_read_timeout sample_merged = 60000"
  using settings_inherited [OF sample_location_conf]
  by (simp add: inherited_def read_blocks_def sample_http_block sample_location_block)

text \<open>C20: A zone the configuration accepts has a name no earlier zone has, positive requests and period, a
  burst that is not negative, a sum of requests and burst Lua can represent exactly (at most
  2^53 - 1), a key compiled from its \<open>key=\<close> parameter, and a script body exactly if its algorithm is
  \<open>custom\<close>, as the loader read it; the zones before it stay as they are.\<close>

theorem zone_accepted:
  assumes "ratelimit_zone C push_ok (name # params) M = Inr M'"
  shows "\<exists>z. mc_zones M' = mc_zones M @ [z] \<and> z_name z = name \<and> name \<notin> z_name ` set (mc_zones M)
    \<and> 0 < sint (z_requests z) \<and> 0 < sint (z_period z) \<and> 0 \<le> sint (z_burst z)
    \<and> sint (z_requests z) + sint (z_burst z) \<le> 2 ^ 53 - 1
    \<and> (\<exists>k. ''key='' @ k \<in> set params \<and> ce_compile C k = Some (z_key z))
    \<and> (if z_algo z = ALGO_CUSTOM
       then \<exists>ops. script_read_file (ce_files C) (z_script_path z) = (NGX_OK, Some (z_script_body z), ops)
       else z_script_body z = [])"
  using assms
proof (rule ratelimit_zone_adds)
  fix z assume z: "M' = M\<lparr>mc_zones := mc_zones M @ [z]\<rparr>" "z_name z = name" "zone_ok C z"
    "name \<notin> z_name ` set (mc_zones M)"
    and k: "\<exists>p \<in> set params. has_prefix ''key='' p \<and> ce_compile C (drop 4 p) = Some (z_key z)"
  from k obtain p where p: "p \<in> set params" "take 4 p = ''key=''" "ce_compile C (drop 4 p) = Some (z_key z)"
    by (auto simp: has_prefix_def eval_nat_numeral)
  then have "''key='' @ drop 4 p \<in> set params" using append_take_drop_id [of 4 p] by simp
  with p z show ?thesis by (auto simp: zone_ok_def LUA_MAX_SAFE_INT_def)
qed

lemma sample_zone_directive:
  "ratelimit_zone sample_conf True [''api'', ''key=k'', ''rate=10r/m'', ''burst=5''] \<lparr>mc_zones = [], mc_done_index = 0\<rparr>
     = Inr sample_main"
  using sample_zones_load by (simp add: zone_directives_def sample_zones_def create_main_conf_def split: sum.splits)

theorem zone_accepted_witness: "0 < sint (z_requests (hd (mc_zones sample_main)))"
  using zone_accepted [OF sample_zone_directive] by auto

section \<open>From the configuration to the requests\<close>

definition with_sha :: "digest \<Rightarrow> zone \<Rightarrow> zone" where
  "with_sha D z = (if z_algo z = ALGO_CUSTOM then z\<lparr>z_script_sha := script_sha1 D (z_script_body z)\<rparr> else z)"

lemma custom_shas_map: "custom_shas D zs = map (with_sha D) zs"
  by (induction zs) (simp_all add: with_sha_def)

lemma with_sha_fields [simp]:
  "z_name (with_sha D z) = z_name z" "z_requests (with_sha D z) = z_requests z" "z_burst (with_sha D z) = z_burst z"
  "z_period (with_sha D z) = z_period z" "z_algo (with_sha D z) = z_algo z" "z_script_body (with_sha D z) = z_script_body z"
  by (simp_all add: with_sha_def)

lemma init_zones:
  "init D G M T = (NGX_OK, M', T') \<Longrightarrow> mc_zones M' = map (with_sha D) (mc_zones M) \<and> T' = script_init D T"
  by (auto simp: init_def custom_shas_map Let_def split: if_splits)

text \<open>The zone a location refers to, after the postconfiguration.\<close>

lemma served_zone:
  assumes reg: "registry_ok C M" and d: "merged_ok M d" and i: "ld_zone d = Some i"
    and M': "mc_zones M' = map (with_sha D) (mc_zones M)"
  obtains z where "lc_zone (served M' d) = Some (with_sha D z)" "z \<in> set (mc_zones M)"
    "z_name z = ld_zone_name d" "zone_ok C z" "z = mc_zones M ! i"
proof -
  have i': "i < length (mc_zones M)" "z_name (mc_zones M ! i) = ld_zone_name d"
    using d i by (simp_all add: merged_ok_def outer_ok_def zone_found_def)
  then show thesis
    using reg i M' by (intro that [of "mc_zones M ! i"]) (simp_all add: served_def registry_ok_def)
qed

lemma filter_key_unique:
  "distinct (map f xs) \<Longrightarrow> x \<in> set xs \<Longrightarrow> filter (\<lambda>y. f y = f x) xs = [x]"
  by (induction xs) (auto simp: filter_empty_conv image_iff)

text \<open>C11: A configuration that loads is ready for requests: in every location (or nested block) that
  names a zone, the zone is the only one of that name, the location is one the request-time theorems
  call active (it has a target and a rejection status from 400 to 599), and \<open>ratelimit_on_error\<close> has
  one of its two values.\<close>

theorem loaded_location_active:
  assumes "zone_directives C zs = Inr M" "location_conf C M http blocks = Inr d" "blocks \<noteq> []"
    and "setter_contract C" and "init D G M T = (NGX_OK, M', T')"
  shows "lc_zone_name (served M' d) \<noteq> [] \<longrightarrow>
    (\<exists>z. lc_zone (served M' d) = Some z \<and> z_name z = lc_zone_name (served M' d)
      \<and> filter (\<lambda>z'. z_name z' = z_name z) (mc_zones M') = [z])
    \<and> active (served M' d) \<and> lc_on_error (served M' d) \<in> {ON_ERROR_DENY, ON_ERROR_ALLOW}"
proof
  assume named: "lc_zone_name (served M' d) \<noteq> []"
  have reg: "registry_ok C M" using assms(1) by (rule zone_directives_ok)
  have m: "merged_ok M d" using assms(4,2,3) by (rule location_conf_merged)
  have M': "mc_zones M' = map (with_sha D) (mc_zones M)" using init_zones [OF assms(5)] by simp
  from named m obtain i where i: "ld_zone d = Some i" by (auto simp: served_def merged_ok_def)
  from served_zone [OF reg m i M'] obtain z where z: "lc_zone (served M' d) = Some (with_sha D z)"
    "z \<in> set (mc_zones M)" "z_name z = ld_zone_name d" .
  have "filter (\<lambda>z'. z_name z' = z_name z) (mc_zones M) = [z]"
    using reg z(2) unfolding registry_ok_def by (intro filter_key_unique) simp_all
  then have "filter (\<lambda>z'. z_name z' = z_name z) (mc_zones M') = [with_sha D z]"
    by (simp add: M' filter_map o_def)
  with z m i show "(\<exists>z. lc_zone (served M' d) = Some z \<and> z_name z = lc_zone_name (served M' d)
      \<and> filter (\<lambda>z'. z_name z' = z_name z) (mc_zones M') = [z])
    \<and> active (served M' d) \<and> lc_on_error (served M' d) \<in> {ON_ERROR_DENY, ON_ERROR_ALLOW}"
    by (auto simp: served_def merged_ok_def active_def)
qed

definition sample_digest :: digest where
  "sample_digest = \<lparr>d_sha1 = (\<lambda>s. take 20 (s @ replicate 20 (CHR ''x''))), d_hex_dump = (\<lambda>s. s @ s)\<rparr>"

definition sample_registration :: registration where
  "sample_registration = \<lparr>rg_phase_ok = True, rg_variable_ok = True, rg_index = 3\<rparr>"

lemma sample_init:
  "init sample_digest sample_registration sample_main scripts_static
     = (NGX_OK, sample_main\<lparr>mc_done_index := 3\<rparr>, script_init sample_digest scripts_static)"
  by (simp add: init_def sample_registration_def sample_main_def)

theorem loaded_location_active_witness:
  "active (served (sample_main\<lparr>mc_done_index := 3\<rparr>) sample_merged)"
  using loaded_location_active [OF sample_zones_load sample_location_conf _ sample_contract sample_init]
  by (simp add: served_def sample_merged_def)

lemma unat_sint: "0 \<le> sint (w :: u64) \<Longrightarrow> int (unat w) = sint w"
  by (simp add: sint_uint_nonneg flip: uint_nat)

lemma script_table:
  "script_init D scripts_static =
     [\<lparr>s_body = fixed_window_lua, s_sha = script_sha1 D fixed_window_lua\<rparr>,
      \<lparr>s_body = token_bucket_lua, s_sha = script_sha1 D token_bucket_lua\<rparr>,
      \<lparr>s_body = gcra_lua, s_sha = script_sha1 D gcra_lua\<rparr>,
      \<lparr>s_body = sliding_window_lua, s_sha = script_sha1 D sliding_window_lua\<rparr>]"
  by (simp add: script_init_def scripts_static_def set_body_def Let_def eval_nat_numeral)

lemma script_args_sha:
  "\<exists>body. script_args (script_init D scripts_static) (with_sha D z) True = [''EVAL'', body]
     \<and> script_args (script_init D scripts_static) (with_sha D z) False = [''EVALSHA'', script_sha1 D body]"
  by (cases "z_algo z") (simp_all add: script_args_def with_sha_def script_body_def script_sha_def script_table)

text \<open>C12: What a loaded location sends: requests and the burst that applies (the location's, or the zone's)
  sum up to at most 2^53 - 1 without wrapping around, so the limit of the fixed and the sliding
  window is exactly that sum, every number of the call is the configured one, and the digest of
  EVALSHA is the SHA1 of the very text EVAL would send.\<close>

theorem loaded_location_call:
  assumes "zone_directives C zs = Inr M" "location_conf C M http blocks = Inr d" "blocks \<noteq> []"
    and "setter_contract C" and "init D G M scripts_static = (NGX_OK, M', T')"
    and "lc_zone (served M' d) = Some z"
  shows "let lc = served M' d; burst = effective_burst lc z in
    0 < unat (z_requests z) \<and> unat (z_requests z) + unat burst \<le> 2 ^ 53 - 1
    \<and> map unat (argv_values lc z) =
       (if z_algo z \<in> {ALGO_FIXED_WINDOW, ALGO_SLIDING_WINDOW}
        then [unat (z_requests z) + unat burst, unat (z_period z), unat (lc_quantity lc)]
        else [unat (z_requests z), unat (z_period z), unat burst, unat (lc_quantity lc)])
    \<and> (\<exists>body. script_args T' z True = [''EVAL'', body] \<and> script_args T' z False = [''EVALSHA'', script_sha1 D body])"
proof -
  have reg: "registry_ok C M" using assms(1) by (rule zone_directives_ok)
  have m: "merged_ok M d" using assms(4,2,3) by (rule location_conf_merged)
  note iz = init_zones [OF assms(5)]
  obtain i where i: "ld_zone d = Some i" using assms(6) by (auto simp: served_def)
  obtain z0 where z: "z = with_sha D z0" "zone_ok C z0" "z0 = mc_zones M ! i"
    using served_zone [OF reg m i conjunct1 [OF iz]] assms(6) by auto
  let ?b = "effective_burst (served M' d) z"
  have b: "0 \<le> sint ?b \<and> sint (z_requests z) + sint ?b \<le> LUA_MAX_SAFE_INT"
    using z m i over_lua_limit_iff [of "ld_burst d" "z_requests z0"]
    by (auto simp: effective_burst_def served_def zone_ok_def merged_ok_def outer_ok_def settings_ok_def)
  have r: "0 < sint (z_requests z)" using z by (simp add: zone_ok_def)
  have "int (unat (z_requests z)) = sint (z_requests z)" "int (unat ?b) = sint ?b"
    by (rule unat_sint, use r b in simp)+
  then have sum: "unat (z_requests z) + unat ?b \<le> 9007199254740991" "0 < unat (z_requests z)"
    using b r unfolding LUA_MAX_SAFE_INT_def by linarith+
  then have "unat (z_requests z + ?b) = unat (z_requests z) + unat ?b"
    by (subst unat_add_lem [THEN iffD1]) simp_all
  with sum script_args_sha [of D z0] iz z(1) show ?thesis
    by (simp add: Let_def argv_values_def)
qed

theorem loaded_location_call_witness:
  "map unat (argv_values (served (sample_main\<lparr>mc_done_index := 3\<rparr>) sample_merged) (hd (mc_zones sample_main))) = [17, 60, 1]"
  using loaded_location_call [OF sample_zones_load sample_location_conf _ sample_contract sample_init]
  by (simp add: served_def sample_merged_def sample_main_def effective_burst_def Let_def)

lemma sint_of_nat_u64: "n < 2 ^ 63 \<Longrightarrow> sint (of_nat n :: u64) = int n"
  by (simp add: sint_uint unsigned_of_nat take_bit_nat_eq_self signed_take_bit_int_eq_self)

lemma atoi_digits: "list_all is_digit ds \<Longrightarrow> 0 < dec_value ds \<Longrightarrow> dec_value ds < 2 ^ 63 \<Longrightarrow>
   atoi ds = of_nat (dec_value ds) \<and> 0 < sint (atoi ds)"
  by (cases ds) (auto simp: atoi_def sint_of_nat_u64)

lemma atoi_positive: "0 < sint (atoi ds) \<Longrightarrow>
   list_all is_digit ds \<and> 0 < dec_value ds \<and> dec_value ds < 2 ^ 63 \<and> atoi ds = of_nat (dec_value ds)"
  by (auto simp: atoi_def sint_of_nat_u64 split: if_splits)

lemma parse_rate_tail:
  "(if length q \<noteq> 3 \<or> q ! 0 \<noteq> CHR ''r'' \<or> q ! 1 \<noteq> CHR ''/'' then e
    else if q ! 2 = CHR ''s'' then Inr (x, 1) else if q ! 2 = CHR ''m'' then Inr (x, 60)
    else if q ! 2 = CHR ''h'' then Inr (x, 3600) else e) =
   (case q of [a, b, c] \<Rightarrow>
         (if a \<noteq> CHR ''r'' \<or> b \<noteq> CHR ''/'' then e
          else case map_of [(CHR ''s'', 1), (CHR ''m'', 60), (CHR ''h'', 3600)] c of
              None \<Rightarrow> e | Some scale \<Rightarrow> Inr (x, scale))
       | _ \<Rightarrow> e)"
  by (simp split: list.split)

lemma parse_rate_eq:
  "parse_rate C (''rate='' @ p) = (let requests = ce_atoi C (takeWhile is_digit p) in
     if sint requests \<le> 0 then Inl (Conf_message ''invalid'')
     else case dropWhile is_digit p of [a, b, c] \<Rightarrow>
         (if a \<noteq> CHR ''r'' \<or> b \<noteq> CHR ''/'' then Inl (Conf_message ''invalid'')
          else case map_of [(CHR ''s'', 1), (CHR ''m'', 60), (CHR ''h'', 3600)] c of
              None \<Rightarrow> Inl (Conf_message ''invalid'') | Some scale \<Rightarrow> Inr (requests, scale))
       | _ \<Rightarrow> Inl (Conf_message ''invalid''))"
proof -
  have "drop (length ''rate='') (''rate='' @ p) = p" by simp
  then show ?thesis
    by (simp only: parse_rate_def Let_def takeWhile_eq_take [symmetric] dropWhile_eq_drop [symmetric] parse_rate_tail)
qed

lemma digit_split:
  "list_all is_digit ds \<Longrightarrow> \<not> is_digit c \<Longrightarrow> takeWhile is_digit (ds @ c # s) = ds \<and> dropWhile is_digit (ds @ c # s) = c # s"
  by (induction ds) auto

text \<open>C36: The rate shorthand: a parameter is accepted exactly when it is \<open>rate=\<close>, a positive decimal number
  that fits a signed word, \<open>r/\<close> and one of \<open>s\<close>, \<open>m\<close>, \<open>h\<close>, and it is read as that number of requests
  per 1, 60 or 3600 seconds.\<close>

theorem parse_rate_iff:
  assumes "ce_atoi C = atoi"
  shows "parse_rate C (''rate='' @ p) = Inr (requests, period) \<longleftrightarrow>
    (\<exists>ds u. p = ds @ ''r/'' @ [u] \<and> list_all is_digit ds \<and> 0 < dec_value ds \<and> dec_value ds < 2 ^ 63
       \<and> map_of [(CHR ''s'', 1), (CHR ''m'', 60), (CHR ''h'', 3600)] u = Some period
       \<and> requests = of_nat (dec_value ds))" (is "?l \<longleftrightarrow> ?r")
proof
  assume ?r
  then obtain ds u where p: "p = ds @ ''r/'' @ [u]" and ds: "list_all is_digit ds" "0 < dec_value ds" "dec_value ds < 2 ^ 63"
    and u: "map_of [(CHR ''s'', 1), (CHR ''m'', 60), (CHR ''h'', 3600)] u = Some period"
    and r: "requests = of_nat (dec_value ds)" by blast
  have "takeWhile is_digit p = ds" "dropWhile is_digit p = ''r/'' @ [u]"
    using digit_split [OF ds(1), of "CHR ''r''" "''/'' @ [u]"] p by simp_all
  with atoi_digits [OF ds] u r show ?l by (simp only: parse_rate_eq assms) (auto simp: Let_def)
next
  assume l: ?l
  let ?ds = "takeWhile is_digit p"
  have pos: "0 < sint (atoi ?ds)" and req: "requests = atoi ?ds"
    using l by (auto simp only: parse_rate_eq assms Let_def split: if_splits list.splits option.splits)
  obtain u where p': "dropWhile is_digit p = [CHR ''r'', CHR ''/'', u]"
    and u: "map_of [(CHR ''s'', 1), (CHR ''m'', 60), (CHR ''h'', 3600)] u = Some period"
    using l by (auto simp only: parse_rate_eq assms Let_def split: if_splits list.splits option.splits)
  have "p = ?ds @ ''r/'' @ [u]" using p' takeWhile_dropWhile_id [of is_digit p] by simp
  with u req atoi_positive [OF pos] show ?r by blast
qed

theorem parse_rate_iff_witness: "parse_rate sample_conf ''rate=10r/m'' = Inr (10, 60)"
proof -
  have "ce_atoi sample_conf = atoi" by (simp add: sample_conf_def)
  from parse_rate_iff [OF this, of "''10r/m''" 10 60] show ?thesis
    by (auto intro!: exI [of _ "''10''"] simp: is_digit_def byte_def digit_val_def)
qed

text \<open>C26: A location's own static target does not shadow a variable target of the blocks around it: after
  merging, the location has both, and a check takes its target from the inherited variable, whatever
  \<open>ratelimit_pass\<close> the location gives itself.\<close>

theorem static_target_overridden:
  assumes "merge_loc_conf C M prev conf = Inr d" "ld_complex_target prev = Some cv"
    and "ld_upstream conf = Some us" "ld_complex_target conf = None" "e_lc E = served M d"
    and "p_complex_value (e_p E) cv = Some target" "target \<noteq> []"
    and "upstream_add (um_upstreams N) target 0 = Some us'"
  shows "lc_upstream (served M d) = Some us
    \<and> resolve_target N E r = Inr ((served M d)\<lparr>lc_upstream := Some us'\<rparr>)"
  using assms(1)
proof (cases rule: merge_loc_conf_Inr)
  case (1 n z)
  have "ld_complex_target d = Some cv" "ld_upstream d = Some us"
    using assms(2-4) by (simp_all add: 1(2))
  with assms(5-8) show ?thesis by (simp add: resolve_target_def served_def)
qed

theorem static_target_overridden_witness:
  "resolve_target (sample_module\<lparr>um_upstreams := [\<lparr>us_host = ''pool'', us_port = 0\<rparr>]\<rparr>)
      (sample_env\<lparr>e_lc := served sample_main sample_merged, e_p := ascii_platform\<lparr>p_complex_value := (\<lambda>n. Some ''pool'')\<rparr>\<rparr>)
      sample_request
    = Inr ((served sample_main sample_merged)\<lparr>lc_upstream := Some \<lparr>us_host = ''pool'', us_port = 0\<rparr>\<rparr>)"
proof -
  have "merge_loc_conf sample_conf sample_main (projr (location_block sample_conf sample_http))
      (projr (location_block sample_conf sample_location)) = Inr sample_merged"
    using sample_location_conf
    by (simp add: location_conf_def nested_block_def sample_http_block sample_location_block split: sum.splits)
  from static_target_overridden [OF this, of 5 "\<lparr>us_host = ''redis'', us_port = 0\<rparr>"
      "sample_env\<lparr>e_lc := served sample_main sample_merged, e_p := ascii_platform\<lparr>p_complex_value := (\<lambda>n. Some ''pool'')\<rparr>\<rparr>"
      "''pool''" "sample_module\<lparr>um_upstreams := [\<lparr>us_host = ''pool'', us_port = 0\<rparr>]\<rparr>"]
  show ?thesis
    by (simp add: sample_http_block sample_location_block sample_module_def)
qed

end
