(* ===== verification/RL_Limit.thy ===== *)
theory RL_Limit
  imports RL_Lua RL_Loading
begin

text \<open>
  What the scripts of \<open>RL_Lua\<close> promise, and what the module makes of their answers.
\<close>

section \<open>The call of a zone's script\<close>

text \<open>The script of the zone's algorithm on the decimal arguments of a check, each through
  \<open>tonumber\<close>.  A custom script is not known.  The divisors of the scripts come from the first two
  arguments, which a zone that is accepted has positive; at 0, Lua would give infinities this model has not.\<close>

definition run_script ::
    "lua \<Rightarrow> 's redis \<Rightarrow> 's \<Rightarrow> algo \<Rightarrow> ngx_str \<Rightarrow> ngx_str list \<Rightarrow> (int list \<times> 's) option" where
  "run_script L R s a k argv =
     (case (a, map (l_tonumber L) argv) of
        (ALGO_FIXED_WINDOW, [Some lm, Some window, Some quantity]) \<Rightarrow>
          fixed_window L R s k lm window quantity
      | (ALGO_TOKEN_BUCKET, [Some requests, Some period, Some burst, Some quantity]) \<Rightarrow>
          token_bucket L R s k requests period burst quantity
      | (ALGO_GCRA, [Some requests, Some period, Some burst, Some quantity]) \<Rightarrow>
          gcra L R s k requests period burst quantity
      | (ALGO_SLIDING_WINDOW, [Some lm, Some window, Some quantity]) \<Rightarrow>
          sliding_window L R s k lm window quantity
      | _ \<Rightarrow> None)"

section \<open>The reply contract\<close>

text \<open>What the parser of \<open>reply.c\<close> is written for: status 0 or 1, counters and reset not negative, and a
  retry value of -1 or at least one second; -1 with every status 0, and a number of seconds with every
  refused request that consumes.\<close>

fun reply_contract :: "bool \<Rightarrow> int list \<Rightarrow> bool" where
  "reply_contract peek [st, lm, rm, retry, rst] \<longleftrightarrow>
     st \<in> {0, 1} \<and> 0 \<le> lm \<and> 0 \<le> rm \<and> 0 \<le> rst
     \<and> (if st = 0 \<or> peek then retry = -1 else 1 \<le> retry)"
| "reply_contract peek _ \<longleftrightarrow> False"

text \<open>Rounding to a double is monotone and exact on the integers of magnitude up to 2^53.\<close>

definition doubles :: "lua \<Rightarrow> bool" where
  "doubles L \<longleftrightarrow> (\<forall>x y. x \<le> y \<longrightarrow> l_rnd L x \<le> l_rnd L y)
     \<and> (\<forall>n. \<bar>n\<bar> \<le> 2 ^ 53 \<longrightarrow> l_rnd L (of_int n) = of_int n)"

lemma doublesD:
  assumes "doubles L"
  shows rnd_mono: "x \<le> y \<Longrightarrow> l_rnd L x \<le> l_rnd L y"
    and rnd_int: "\<bar>n\<bar> \<le> 2 ^ 53 \<Longrightarrow> l_rnd L (of_int n) = of_int n"
    and rnd_0 [simp]: "l_rnd L 0 = 0"
    and rnd_nonneg: "0 \<le> x \<Longrightarrow> 0 \<le> l_rnd L x"
    and rnd_nonpos: "x \<le> 0 \<Longrightarrow> l_rnd L x \<le> 0"
proof -
  show m: "x \<le> y \<Longrightarrow> l_rnd L x \<le> l_rnd L y" for x y
    using assms by (simp add: doubles_def)
  show i: "\<bar>n\<bar> \<le> 2 ^ 53 \<Longrightarrow> l_rnd L (of_int n) = of_int n" for n
    using assms by (simp add: doubles_def)
  show z: "l_rnd L 0 = 0" using i [of 0] by simp
  show "0 \<le> x \<Longrightarrow> 0 \<le> l_rnd L x" "x \<le> 0 \<Longrightarrow> l_rnd L x \<le> 0"
    using m [of 0 x] m [of x 0] z by simp_all
qed

text \<open>A comparison with a double on the right decides the exact sum.\<close>

lemma rnd_le_int: "doubles L \<Longrightarrow> \<bar>n\<bar> \<le> 2 ^ 53 \<Longrightarrow> of_int n \<le> x \<Longrightarrow> of_int n \<le> l_rnd L x"
  by (metis rnd_int rnd_mono)

lemma rnd_ge_int: "doubles L \<Longrightarrow> \<bar>n\<bar> \<le> 2 ^ 53 \<Longrightarrow> x \<le> of_int n \<Longrightarrow> l_rnd L x \<le> of_int n"
  by (metis rnd_int rnd_mono)

lemma trunc_simps [simp]: "trunc 0 = 0" "trunc 1 = 1" "trunc (- 1) = -1" "trunc (of_int n) = n"
  using ceiling_of_int [of "-1 :: int"] by (simp_all add: trunc_def)

lemma trunc_numeral [simp]: "trunc (numeral n) = numeral n" "trunc (- numeral n) = - numeral n"
  using trunc_simps(4) [of "numeral n"] trunc_simps(4) [of "- numeral n"] by simp_all

lemma trunc_nonneg: "0 \<le> x \<Longrightarrow> 0 \<le> trunc x"
  by (simp add: trunc_def)

lemma trunc_pos: "1 \<le> x \<Longrightarrow> 1 \<le> trunc x"
  by (simp add: trunc_def)

lemma fixed_window_contract:
  assumes run: "fixed_window L R s k lm window quantity = Some (rs, s')" and pos: "0 \<le> lm" "0 \<le> window"
  shows "reply_contract (quantity = 0) rs"
proof -
  from run obtain v current where v: "rd_get R s k = Some v"
    and c: "(case v of None \<Rightarrow> Some 0 | Some t \<Rightarrow> l_tonumber L t) = Some current"
    by (auto simp: fixed_window_def bind_eq_Some_conv)
  note run = run [unfolded fixed_window_def v Option.bind.bind_lunit c]
  consider (peek) "quantity = 0" | (refuse) "quantity \<noteq> 0" "lm < add L current quantity"
    | (admit) "quantity \<noteq> 0" "\<not> lm < add L current quantity" by blast
  then show ?thesis
  proof cases
    case peek
    with run pos show ?thesis by (auto simp: Let_def trunc_nonneg)
  next
    case refuse
    with run pos show ?thesis by (auto simp: Let_def trunc_nonneg trunc_pos)
  next
    case admit
    with run obtain n s1 where "rd_incrby R s k quantity = Some (n, s1)"
      by (auto simp: bind_eq_Some_conv)
    with run admit pos show ?thesis by (auto simp: Let_def trunc_nonneg bind_eq_Some_conv split: if_splits)
  qed
qed

lemma sliding_window_contract:
  assumes run: "sliding_window L R s k lm window quantity = Some (rs, s')" and pos: "0 \<le> lm"
  shows "reply_contract (quantity = 0) rs"
proof -
  obtain cur elapsed where w: "window_of L R s window = (cur, elapsed)" by fastforce
  from run w obtain c p where cp: "counts L R s k cur = Some (c, p)"
    by (auto simp: sliding_window_def bind_eq_Some_conv Let_def)
  note run = run [unfolded sliding_window_def w cp prod.case Option.bind.bind_lunit Let_def [of "(_, _)"]]
  consider (peek) "quantity = 0"
    | (refuse) "quantity \<noteq> 0" "lm < add L (add L (mul L p (dvd_by L (sub L window elapsed) window)) c) quantity"
    | (admit) "quantity \<noteq> 0" "\<not> lm < add L (add L (mul L p (dvd_by L (sub L window elapsed) window)) c) quantity"
    by blast
  then show ?thesis
  proof cases
    case peek
    with run pos show ?thesis by (auto simp: Let_def trunc_nonneg)
  next
    case refuse
    with run pos show ?thesis by (auto simp: Let_def trunc_nonneg trunc_pos)
  next
    case admit
    with run pos show ?thesis by (auto simp: Let_def trunc_nonneg bind_eq_Some_conv)
  qed
qed

lemma token_bucket_contract:
  assumes run: "token_bucket L R s k requests period burst quantity = Some (rs, s')"
    and L: "doubles L" and pos: "0 \<le> requests" "0 \<le> burst"
    and tok: "\<And>tokens ts. bucket L R s k (add L requests burst) (dvd_by L requests period) = Some (tokens, ts)
      \<Longrightarrow> 0 \<le> tokens"
  shows "reply_contract (quantity = 0) rs"
proof -
  from run obtain tokens ts
    where b: "bucket L R s k (add L requests burst) (dvd_by L requests period) = Some (tokens, ts)"
    by (auto simp: token_bucket_def bind_eq_Some_conv Let_def)
  note run = run [unfolded token_bucket_def Let_def [of "add _ _ _"] Let_def [of "dvd_by _ _ _"]
    b prod.case Option.bind.bind_lunit]
  have cap: "0 \<le> add L requests burst" using L pos by (simp add: add_def rnd_nonneg)
  have t: "0 \<le> tokens" by (rule tok [OF b])
  consider (peek) "quantity = 0" | (admit) "quantity \<noteq> 0" "quantity \<le> tokens"
    | (refuse) "quantity \<noteq> 0" "\<not> quantity \<le> tokens" by blast
  then show ?thesis
  proof cases
    case peek
    with run cap t show ?thesis by (auto simp: Let_def trunc_nonneg)
  next
    case admit
    with L have "0 \<le> sub L tokens quantity" by (simp add: sub_def rnd_nonneg)
    with admit run cap t show ?thesis by (auto simp: Let_def trunc_nonneg bind_eq_Some_conv)
  next
    case refuse
    with run cap t show ?thesis by (auto simp: Let_def trunc_nonneg trunc_pos bind_eq_Some_conv)
  qed
qed

lemma gcra_contract:
  assumes run: "gcra L R s k requests period burst quantity = Some (rs, s')"
    and L: "doubles L" and pos: "0 \<le> requests" "0 \<le> period" "0 \<le> burst" "quantity \<noteq> 0"
  shows "reply_contract (quantity = 0) rs"
proof -
  from run obtain tat where a: "arrival L R s k = Some tat"
    by (auto simp: gcra_def bind_eq_Some_conv Let_def)
  define emission where "emission = dvd_by L period requests"
  define diff where "diff = sub L (now_of L R s)
    (sub L (add L tat (mul L emission quantity)) (mul L emission (add L burst 1)))"
  have e: "0 \<le> emission" using L pos by (simp add: emission_def dvd_by_def rnd_nonneg)
  have cap: "0 \<le> add L burst 1" using L pos by (simp add: add_def rnd_nonneg)
  note run = run [unfolded gcra_def a Option.bind.bind_lunit]
  show ?thesis
  proof (cases "diff < 0")
    case True
    with run pos cap show ?thesis
      by (auto simp: Let_def trunc_nonneg trunc_pos diff_def emission_def)
  next
    case False
    with L e have "0 \<le> dvd_by L diff emission" by (simp add: dvd_by_def rnd_nonneg)
    with False run pos cap show ?thesis
      by (auto simp: Let_def trunc_nonneg bind_eq_Some_conv diff_def emission_def)
  qed
qed

section \<open>From the script to the verdict\<close>

text \<open>\<open>tonumber\<close> of a decimal number is the double nearest to it.\<close>

definition reads_decimals :: "lua \<Rightarrow> bool" where
  "reads_decimals L \<longleftrightarrow> (\<forall>n. l_tonumber L (dec n) = Some (l_rnd L (of_nat n)))"

text \<open>A bucket as the scripts leave it: the stored number of tokens is not negative.\<close>

definition tokens_ok :: "lua \<Rightarrow> 's redis \<Rightarrow> 's \<Rightarrow> ngx_str \<Rightarrow> bool" where
  "tokens_ok L R s k \<longleftrightarrow> (\<forall>data x. rd_hmget R s k [''tokens'', ''ts''] = Some data
     \<longrightarrow> tonum L (data ! 0) = Some x \<longrightarrow> 0 \<le> x)"

lemma bucket_nonneg:
  assumes "bucket L R s k capacity rate = Some (tokens, ts)" "tokens_ok L R s k" "doubles L"
    and "0 \<le> capacity" "0 \<le> rate"
  shows "0 \<le> tokens"
proof -
  from assms(1) obtain data tk t where d: "rd_hmget R s k [''tokens'', ''ts''] = Some data"
    and t: "(case (tonum L (data ! 0), tonum L (data ! 1)) of
            (None, _) \<Rightarrow> Some (capacity, now_of L R s)
          | (Some tokens, Some ts) \<Rightarrow> Some (tokens, ts)
          | (Some _, None) \<Rightarrow> None) = Some (tk, t)"
    and tokens: "tokens = (if 0 < sub L (now_of L R s) t
      then let x = add L tk (mul L (sub L (now_of L R s) t) rate) in if capacity < x then capacity else x else tk)"
    by (auto simp: bucket_def bind_eq_Some_conv Let_def split: if_splits prod.splits)
  have tk: "0 \<le> tk"
    using t d assms(2,4) by (auto simp: tokens_ok_def split: option.splits)
  have "0 \<le> mul L e rate" if "0 < e" for e
    using that assms(3,5) by (simp add: mul_def rnd_nonneg)
  with tk assms(3) have "0 \<le> add L tk (mul L e rate)" if "0 < e" for e
    using that by (simp add: add_def rnd_nonneg)
  with tk assms(4) show ?thesis by (simp add: tokens Let_def)
qed

lemma run_script_contract:
  assumes L: "doubles L" "reads_decimals L"
    and run: "run_script L R s a k (map dec ns) = Some (rs, s')"
    and tok: "a = ALGO_TOKEN_BUCKET \<longrightarrow> tokens_ok L R s k"
    and peek: "a = ALGO_GCRA \<longrightarrow> last ns \<noteq> 0"
  shows "reply_contract (last ns = 0) rs"
proof -
  let ?n = "\<lambda>n. l_rnd L (of_nat n)"
  have num: "map (l_tonumber L) (map dec ns) = map (\<lambda>n. Some (?n n)) ns"
    using L(2) by (simp add: reads_decimals_def)
  have pos: "0 \<le> ?n n" for n using L(1) by (simp add: rnd_nonneg)
  have zero: "?n n = 0 \<longleftrightarrow> n = 0" for n
  proof
    assume n: "?n n = 0"
    show "n = 0"
    proof (rule ccontr)
      assume "n \<noteq> 0"
      then have "of_int 1 \<le> ?n n" using L(1) by (intro rnd_le_int) simp_all
      with n show False by simp
    qed
  qed (use L(1) in \<open>simp add: rnd_0\<close>)
  show ?thesis
  proof (cases a)
    case ALGO_FIXED_WINDOW
    with run obtain x y z where ns: "ns = [x, y, z]" "fixed_window L R s k (?n x) (?n y) (?n z) = Some (rs, s')"
      unfolding run_script_def num by (auto split: list.splits)
    from fixed_window_contract [OF ns(2) pos pos] show ?thesis by (simp add: ns(1) zero)
  next
    case ALGO_SLIDING_WINDOW
    with run obtain x y z where ns: "ns = [x, y, z]" "sliding_window L R s k (?n x) (?n y) (?n z) = Some (rs, s')"
      unfolding run_script_def num by (auto split: list.splits)
    from sliding_window_contract [OF ns(2) pos] show ?thesis by (simp add: ns(1) zero)
  next
    case ALGO_TOKEN_BUCKET
    with run obtain x y b z where ns: "ns = [x, y, b, z]"
      "token_bucket L R s k (?n x) (?n y) (?n b) (?n z) = Some (rs, s')"
      unfolding run_script_def num by (auto split: list.splits)
    have "0 \<le> tokens" if "bucket L R s k (add L (?n x) (?n b)) (dvd_by L (?n x) (?n y)) = Some (tokens, ts)" for tokens ts
    proof (rule bucket_nonneg [OF that _ L(1)])
      show "tokens_ok L R s k" using tok ALGO_TOKEN_BUCKET by simp
      show "0 \<le> add L (?n x) (?n b)" "0 \<le> dvd_by L (?n x) (?n y)"
        using L(1) pos by (simp_all add: add_def dvd_by_def rnd_nonneg)
    qed
    from token_bucket_contract [OF ns(2) L(1) pos pos this] show ?thesis by (simp add: ns(1) zero)
  next
    case ALGO_GCRA
    with run obtain x y b z where ns: "ns = [x, y, b, z]" "gcra L R s k (?n x) (?n y) (?n b) (?n z) = Some (rs, s')"
      unfolding run_script_def num by (auto split: list.splits)
    have "?n z \<noteq> 0" using peek ALGO_GCRA ns(1) zero by simp
    from gcra_contract [OF ns(2) L(1) pos pos pos this] show ?thesis by (simp add: ns(1) zero)
  next
    case ALGO_CUSTOM
    with run show ?thesis by (simp add: run_script_def)
  qed
qed

lemma reply_contract_cases:
  assumes "reply_contract peek rs"
  obtains st lm rm retry rst where "rs = [st, lm, rm, retry, rst]" "st \<in> {0, 1}" "0 \<le> lm" "0 \<le> rm" "0 \<le> rst"
    "-1 \<le> retry"
  using assms
proof (induction peek rs rule: reply_contract.induct)
  case (1 peek st lm rm retry rst)
  then have "-1 \<le> retry" by (simp split: if_splits)
  with 1 show ?case by simp
qed simp_all

text \<open>C7: A script's answer is understood.  Whatever the store holds, what a built-in script returns for a
  check is within the reply contract (the first two arguments, requests or the limit and the period or the
  window, are positive in a zone that is accepted, and the scripts divide by them only): status 0 or 1, counters and reset not negative, retry -1 exactly
  when the request is allowed or only peeks, and at least one second otherwise; and, as long as no field
  exceeds the largest \<open>ngx_int_t\<close>, the module parses the text Redis prints for it back to exactly
  these values, with status 429 for 1 and 200 for 0.  For the token bucket the stored tokens must not be
  negative, as the script leaves them; the GCRA peek is the exception stated below.\<close>

theorem script_reply_understood:
  assumes "doubles L" "reads_decimals L"
    and "run_script L R s a k (map dec ns) = Some (rs, s')"
    and "a = ALGO_TOKEN_BUCKET \<longrightarrow> tokens_ok L R s k" and "a = ALGO_GCRA \<longrightarrow> last ns \<noteq> 0"
    and "fresh_ctx c" "offers u (reply_text rs)" "0 < ns ! 0" "0 < ns ! 1"
  shows "reply_contract (last ns = 0) rs \<and> ((\<forall>i \<in> set rs. i \<le> uint NGX_MAX_INT) \<longrightarrow>
     (\<exists>c' u'. process_reply c u (length (reply_text rs)) = (NGX_OK, c', u') \<and> reply_parsed c'
        \<and> u_status u' = (if rs ! 0 = 1 then ST_TOO_MANY_REQUESTS else ST_OK)
        \<and> uint (limit c') = rs ! 1 \<and> uint (remaining c') = rs ! 2 \<and> sint (retry_after c') = rs ! 3
        \<and> uint (reset c') = rs ! 4))"
proof -
  have con: "reply_contract (last ns = 0) rs" using assms(1-5) by (rule run_script_contract)
  then obtain st lm rm retry rst where rs: "rs = [st, lm, rm, retry, rst]"
    and b: "st \<in> {0, 1}" "0 \<le> lm" "0 \<le> rm" "0 \<le> rst" "-1 \<le> retry"
    by (rule reply_contract_cases)
  obtain rc c' u' where pr: "process_reply c u (length (reply_text rs)) = (rc, c', u')"
    by (cases "process_reply c u (length (reply_text rs))")
  have "rc = NGX_OK \<and> reply_parsed c' \<and> u_length u' = 0
    \<and> u_status u' = (if st = 0 then ST_OK else ST_TOO_MANY_REQUESTS)
    \<and> uint (limit c') = lm \<and> uint (remaining c') = rm \<and> sint (retry_after c') = retry \<and> uint (reset c') = rst"
    if "\<forall>i \<in> set rs. i \<le> uint NGX_MAX_INT"
    using assms(6,7) rs b that pr by (intro reply_values_parsed [where s = "reply_text rs"]) simp_all
  with con pr rs b(1) show ?thesis by auto
qed

text \<open>A store with a string, a hash and a time to live per key, on which the theorems are instantiated,
  and exact arithmetic on whole numbers.\<close>

record kv =
  kv_now :: nat
  kv_str :: "ngx_str \<Rightarrow> ngx_str option"
  kv_hash :: "ngx_str \<Rightarrow> ngx_str \<Rightarrow> ngx_str option"
  kv_ttl :: "ngx_str \<Rightarrow> int"

definition kv_incrby :: "kv \<Rightarrow> ngx_str \<Rightarrow> rat \<Rightarrow> (int \<times> kv) option" where
  "kv_incrby s k q =
     (let n = (case kv_str s k of None \<Rightarrow> 0 | Some t \<Rightarrow> dec_value t) + nat \<lfloor>q\<rfloor>
      in Some (int n, s\<lparr>kv_str := (kv_str s)(k \<mapsto> dec n)\<rparr>))"

definition kv_redis :: "kv redis" where
  "kv_redis = \<lparr>rd_time = (\<lambda>s. (kv_now s, 0)), rd_get = (\<lambda>s k. Some (kv_str s k)),
     rd_set = (\<lambda>s k v. Some (s\<lparr>kv_str := (kv_str s)(k \<mapsto> v)\<rparr>)), rd_ttl = kv_ttl, rd_incrby = kv_incrby,
     rd_expire = (\<lambda>s k t. Some (s\<lparr>kv_ttl := (kv_ttl s)(k := \<lfloor>t\<rfloor>)\<rparr>)),
     rd_hmget = (\<lambda>s k fs. Some (map (kv_hash s k) fs)),
     rd_hset = (\<lambda>s k fs. Some (s\<lparr>kv_hash := (kv_hash s)(k := kv_hash s k ++ map_of fs)\<rparr>))\<rparr>"

definition whole_lua :: lua where
  "whole_lua = \<lparr>l_rnd = (\<lambda>x. x),
     l_tonumber = (\<lambda>s. if s \<noteq> [] \<and> list_all is_digit s then Some (of_nat (dec_value s)) else None),
     l_fmt = (\<lambda>x. dec (nat \<lfloor>x\<rfloor>)), l_str = (\<lambda>x. dec (nat \<lfloor>x\<rfloor>))\<rparr>"

definition empty_kv :: kv where
  "empty_kv = \<lparr>kv_now = 1000, kv_str = (\<lambda>_. None), kv_hash = (\<lambda>_ _. None), kv_ttl = (\<lambda>_. -2)\<rparr>"

lemma whole_lua_simps [simp]:
  "l_rnd whole_lua x = x" "l_fmt whole_lua x = dec (nat \<lfloor>x\<rfloor>)" "l_str whole_lua x = dec (nat \<lfloor>x\<rfloor>)"
  "l_tonumber whole_lua (dec n) = Some (of_nat n)"
  using dec_digits [of _ n] by (simp_all add: whole_lua_def list_all_iff)

lemma kv_redis_simps [simp]:
  "rd_time kv_redis s = (kv_now s, 0)" "rd_get kv_redis s k = Some (kv_str s k)"
  "rd_set kv_redis s k v = Some (s\<lparr>kv_str := (kv_str s)(k \<mapsto> v)\<rparr>)" "rd_ttl kv_redis = kv_ttl"
  "rd_incrby kv_redis = kv_incrby" "rd_expire kv_redis s k t = Some (s\<lparr>kv_ttl := (kv_ttl s)(k := \<lfloor>t\<rfloor>)\<rparr>)"
  "rd_hmget kv_redis s k fs = Some (map (kv_hash s k) fs)"
  "rd_hset kv_redis s k upd = Some (s\<lparr>kv_hash := (kv_hash s)(k := kv_hash s k ++ map_of upd)\<rparr>)"
  by (simp_all add: kv_redis_def)

lemma whole_lua_doubles: "doubles whole_lua" and whole_lua_decimals: "reads_decimals whole_lua"
  by (simp_all add: doubles_def reads_decimals_def)

lemmas whole_eval = add_def sub_def mul_def dvd_by_def Let_def now_of_def tonum_def empty_kv_def kv_incrby_def

theorem script_reply_understood_witness:
  "\<exists>rs s' c' u'. run_script whole_lua kv_redis empty_kv ALGO_FIXED_WINDOW ''k'' (map dec [10, 60, 3]) = Some (rs, s')
     \<and> process_reply sample_ctx (reply_at (reply_text rs)) (length (reply_text rs)) = (NGX_OK, c', u')
     \<and> u_status u' = ST_OK \<and> uint (limit c') = 10 \<and> uint (remaining c') = 7 \<and> uint (reset c') = 60"
proof -
  have run: "run_script whole_lua kv_redis empty_kv ALGO_FIXED_WINDOW ''k'' (map dec [10, 60, 3])
      = Some ([0, 10, 7, -1, 60],
          empty_kv\<lparr>kv_str := (kv_str empty_kv)(''k'' \<mapsto> dec 3), kv_ttl := (kv_ttl empty_kv)(''k'' := 60)\<rparr>)"
    by (simp add: run_script_def fixed_window_def whole_eval)
  from script_reply_understood [OF whole_lua_doubles whole_lua_decimals this _ _ fresh_sample_ctx offers_reply_at]
  show ?thesis using run by auto
qed

section \<open>Peeking\<close>

lemma peek_same_store:
  "fixed_window L R s k lm window 0 = Some (rs, s') \<Longrightarrow> s' = s"
  "sliding_window L R s k lm window 0 = Some (rs, s') \<Longrightarrow> s' = s"
  "token_bucket L R s k requests period burst 0 = Some (rs, s') \<Longrightarrow> s' = s"
  "gcra L R s k requests period burst 0 = Some (rs, s') \<Longrightarrow> s' = s"
  by (auto simp: fixed_window_def sliding_window_def token_bucket_def gcra_def bind_eq_Some_conv Let_def
      split: prod.splits)

text \<open>C40: A check with quantity 0 consumes nothing: whatever the algorithm and the state of the key, the
  script leaves the store as it was, so asking again gives the same answer at the same time.\<close>

theorem peek_consumes_nothing:
  assumes "doubles L" "reads_decimals L" "run_script L R s a k (map dec (ns @ [0])) = Some (rs, s')"
  shows "s' = s"
proof -
  have num: "map (l_tonumber L) (map dec (ns @ [0])) = map (\<lambda>n. Some (l_rnd L (of_nat n))) ns @ [Some 0]"
    using assms(1,2) rnd_0 [of L] by (simp add: reads_decimals_def)
  note run = assms(3) [unfolded run_script_def num]
  consider "ns = []" | x where "ns = [x]" | x y where "ns = [x, y]" | x y z where "ns = [x, y, z]"
    | x y z w us where "ns = x # y # z # w # us"
    by (metis list.exhaust)
  then show ?thesis
  proof cases
    case (3 x y)
    with run show ?thesis by (cases a) (auto dest: peek_same_store)
  next
    case (4 x y z)
    with run show ?thesis by (cases a) (auto dest: peek_same_store)
  next
    case (5 x y z w us)
    with run show ?thesis by (cases a; cases us) auto
  qed (use run in \<open>cases a; auto\<close>)+
qed

theorem peek_consumes_nothing_witness:
  "\<exists>rs. run_script whole_lua kv_redis empty_kv ALGO_FIXED_WINDOW ''k'' (map dec ([10, 60] @ [0])) = Some (rs, empty_kv)"
proof -
  obtain rs s' where run: "run_script whole_lua kv_redis empty_kv ALGO_FIXED_WINDOW ''k'' (map dec ([10, 60] @ [0]))
      = Some (rs, s')"
    by (simp add: run_script_def fixed_window_def whole_eval)
  from peek_consumes_nothing [OF whole_lua_doubles whole_lua_decimals run] run show ?thesis by simp
qed

section \<open>The fixed window never admits more than its limit\<close>

text \<open>The counter of a key: a missing key counts as 0.\<close>

definition counter :: "lua \<Rightarrow> 's redis \<Rightarrow> 's \<Rightarrow> ngx_str \<Rightarrow> rat option" where
  "counter L R s k =
     Option.bind (rd_get R s k) (\<lambda>v. case v of None \<Rightarrow> Some 0 | Some t \<Rightarrow> l_tonumber L t)"

text \<open>What Redis documents of INCRBY and EXPIRE: INCRBY adds to the integer the key holds and returns the
  sum, which a later GET reads back; EXPIRE with a positive time changes no value.\<close>

definition counts_integers :: "lua \<Rightarrow> 's redis \<Rightarrow> ngx_str \<Rightarrow> bool" where
  "counts_integers L R k \<longleftrightarrow>
     (\<forall>s v q n s'. counter L R s k = Some (of_int v) \<longrightarrow> 0 \<le> v \<longrightarrow> v < 2 ^ 53 \<longrightarrow> 0 < q \<longrightarrow>
        rd_incrby R s k (of_int q) = Some (n, s') \<longrightarrow>
        n = v + q \<and> (n < 2 ^ 53 \<longrightarrow> counter L R s' k = Some (of_int n))) \<and>
     (\<forall>s t s'. 0 < t \<longrightarrow> rd_expire R s k t = Some s' \<longrightarrow> rd_get R s' k = rd_get R s k)"

lemma counts_integersD:
  assumes "counts_integers L R k"
  shows "counter L R s k = Some (of_int v) \<Longrightarrow> 0 \<le> v \<Longrightarrow> v < 2 ^ 53 \<Longrightarrow> 0 < q \<Longrightarrow>
      rd_incrby R s k (of_int q) = Some (n, s') \<Longrightarrow> n = v + q \<and> (n < 2 ^ 53 \<longrightarrow> counter L R s' k = Some (of_int n))"
    and "0 < t \<Longrightarrow> rd_expire R s k t = Some s' \<Longrightarrow> rd_get R s' k = rd_get R s k"
  using assms unfolding counts_integers_def by blast+

text \<open>The life of a key within one window: checks of any quantity, in any order with anything else that
  leaves the key alone.  The second argument is the quantity admitted so far.\<close>

inductive window_run :: "lua \<Rightarrow> 's redis \<Rightarrow> ngx_str \<Rightarrow> int \<Rightarrow> rat \<Rightarrow> 's \<Rightarrow> int \<Rightarrow> 's \<Rightarrow> bool"
  for L R k lm window s0 where
  begin_run: "window_run L R k lm window s0 0 s0"
| check: "window_run L R k lm window s0 a s \<Longrightarrow> 0 \<le> q \<Longrightarrow>
    fixed_window L R s k (of_int lm) window (of_int q) = Some (rs, s') \<Longrightarrow>
    window_run L R k lm window s0 (a + (if hd rs = 0 then q else 0)) s'"
| others: "window_run L R k lm window s0 a s \<Longrightarrow> rd_get R s' k = rd_get R s k \<Longrightarrow>
    window_run L R k lm window s0 a s'"

lemma fixed_window_step:
  assumes L: "doubles L" and R: "counts_integers L R k" and lm: "0 \<le> lm" "lm < 2 ^ 53" and window: "0 < window"
    and v: "counter L R s k = Some (of_int v)" "0 \<le> v" "v \<le> lm" and q: "0 \<le> q"
    and run: "fixed_window L R s k (of_int lm) window (of_int q) = Some (rs, s')"
  shows "let a = (if hd rs = 0 then q else 0) in counter L R s' k = Some (of_int (v + a)) \<and> v + a \<le> lm"
proof -
  obtain w where w: "rd_get R s k = Some w"
    and c: "(case w of None \<Rightarrow> Some 0 | Some t \<Rightarrow> l_tonumber L t) = Some (of_int v)"
    using v(1) by (auto simp: counter_def bind_eq_Some_conv)
  note run = run [unfolded fixed_window_def w Option.bind.bind_lunit c]
  consider (peek) "q = 0" | (refuse) "q \<noteq> 0" "of_int lm < add L (of_int v) (of_int q)"
    | (admit) "q \<noteq> 0" "\<not> of_int lm < add L (of_int v) (of_int q)" by blast
  then show ?thesis
  proof cases
    case peek
    with run v show ?thesis by (auto simp: Let_def)
  next
    case refuse
    with run v show ?thesis by (auto simp: Let_def)
  next
    case admit
    then obtain n s1 where inc: "rd_incrby R s k (of_int q) = Some (n, s1)"
      using run by (auto simp: bind_eq_Some_conv)
    have "v + q \<le> lm"
    proof (rule ccontr)
      assume "\<not> v + q \<le> lm"
      then have "of_int (lm + 1) \<le> add L (of_int v) (of_int q)"
        unfolding add_def using L lm by (intro rnd_le_int) simp_all
      with admit(2) show False by simp
    qed
    moreover have "n = v + q" "counter L R s1 k = Some (of_int n)"
      using counts_integersD(1) [OF R v(1,2) _ _ inc] v(3) lm q admit(1) calculation by simp_all
    moreover have "rd_get R s' k = rd_get R s1 k" and "hd rs = 0"
      using run admit inc counts_integersD(2) [OF R window]
      by (auto simp: Let_def bind_eq_Some_conv split: if_splits)
    ultimately show ?thesis by (simp add: counter_def)
  qed
qed

text \<open>C5: The fixed window holds: within one window, whatever the order of checks, peeks and other clients,
  the quantities admitted never add up to more than \<open>requests + burst\<close>, and the counter is exactly
  what has been admitted.\<close>

theorem fixed_window_bound:
  assumes "doubles L" "counts_integers L R k" "0 \<le> lm" "lm < 2 ^ 53" "0 < window"
    and "counter L R s0 k = Some (of_int v)" "0 \<le> v" "v \<le> lm"
    and "window_run L R k lm window s0 a s"
  shows "v + a \<le> lm \<and> counter L R s k = Some (of_int (v + a))"
proof -
  have "0 \<le> a \<and> v + a \<le> lm \<and> counter L R s k = Some (of_int (v + a))"
    using assms(9)
  proof induction
    case begin_run
    with assms(6,8) show ?case by simp
  next
    case (check a s q rs s')
    then show ?case
      using fixed_window_step [OF assms(1-5), of s "v + a" q rs s'] assms(7) by (auto simp: Let_def add.assoc)
  next
    case (others a s s')
    then show ?case by (simp add: counter_def)
  qed
  then show ?thesis by blast
qed

lemma kv_counts_integers: "counts_integers whole_lua kv_redis k"
proof -
  have val: "of_nat (case w of None \<Rightarrow> 0 | Some t \<Rightarrow> dec_value t) = (of_int v :: rat)"
    if "(case w of None \<Rightarrow> Some 0 | Some t \<Rightarrow> l_tonumber whole_lua t) = Some (of_int v)" for w v
    using that by (auto simp: whole_lua_def split: option.splits if_splits)
  have "n = v + q \<and> counter whole_lua kv_redis s' k = Some (of_int n)"
    if c: "counter whole_lua kv_redis s k = Some (of_int v)" and "0 < q"
      and inc: "rd_incrby kv_redis s k (of_int q) = Some (n, s')" for s v q n s'
  proof -
    from c have "of_nat (case kv_str s k of None \<Rightarrow> 0 | Some t \<Rightarrow> dec_value t) = (of_int v :: rat)"
      by (intro val) (simp add: counter_def)
    then have "int (case kv_str s k of None \<Rightarrow> 0 | Some t \<Rightarrow> dec_value t) = v"
      by (metis of_int_eq_iff of_int_of_nat_eq)
    with inc \<open>0 < q\<close> show ?thesis by (auto simp: kv_incrby_def Let_def counter_def)
  qed
  moreover have "rd_get kv_redis s' k = rd_get kv_redis s k" if "rd_expire kv_redis s k t = Some s'" for s s' t
    using that by auto
  ultimately show ?thesis unfolding counts_integers_def by blast
qed

text \<open>Two checks of quantity 6 against a limit of 10: the first is admitted, the second is not.\<close>

theorem fixed_window_bound_witness:
  "\<exists>s. window_run whole_lua kv_redis ''k'' 10 60 empty_kv 6 s \<and> counter whole_lua kv_redis s ''k'' = Some 6"
proof -
  let ?s1 = "empty_kv\<lparr>kv_str := (kv_str empty_kv)(''k'' \<mapsto> dec 6), kv_ttl := (kv_ttl empty_kv)(''k'' := 60)\<rparr>"
  let ?run = "window_run whole_lua kv_redis ''k'' 10 60 empty_kv"
  have "fixed_window whole_lua kv_redis empty_kv ''k'' (of_int 10) 60 (of_int 6) = Some ([0, 10, 4, -1, 60], ?s1)"
    by (simp add: fixed_window_def whole_eval)
  from window_run.check [OF window_run.begin_run _ this] have 1: "?run 6 ?s1" by simp
  have "fixed_window whole_lua kv_redis ?s1 ''k'' (of_int 10) 60 (of_int 6) = Some ([1, 10, 4, 60, 60], ?s1)"
    by (simp add: fixed_window_def whole_eval)
  from window_run.check [OF 1 _ this] have 2: "?run 6 ?s1" by simp
  have "counter whole_lua kv_redis empty_kv ''k'' = Some (of_int 0)" by (simp add: counter_def empty_kv_def)
  from fixed_window_bound [OF whole_lua_doubles kv_counts_integers _ _ _ this _ _ 2] 2 show ?thesis by auto
qed

section \<open>The sliding window never admits more than its limit in one window\<close>

text \<open>What Redis documents of HSET and HMGET, and Lua of printing a whole number: the fields that were set
  are read back, EXPIRE with a positive time changes none of them, and the text of an integer up to 2^53
  is read back as that integer.\<close>

definition keeps_fields :: "lua \<Rightarrow> 's redis \<Rightarrow> ngx_str \<Rightarrow> bool" where
  "keeps_fields L R k \<longleftrightarrow>
     (\<forall>s fs s'. distinct (map fst fs) \<longrightarrow> rd_hset R s k fs = Some s' \<longrightarrow>
        rd_hmget R s' k (map fst fs) = Some (map (\<lambda>f. Some (snd f)) fs)) \<and>
     (\<forall>s t s' fs. 0 < t \<longrightarrow> rd_expire R s k t = Some s' \<longrightarrow> rd_hmget R s' k fs = rd_hmget R s k fs) \<and>
     (\<forall>n. 0 \<le> n \<longrightarrow> n \<le> 2 ^ 53 \<longrightarrow> l_tonumber L (l_str L (of_int n)) = Some (of_int n))"

lemma keeps_fieldsD:
  assumes "keeps_fields L R k"
  shows "distinct (map fst fs) \<Longrightarrow> rd_hset R s k fs = Some s' \<Longrightarrow>
      rd_hmget R s' k (map fst fs) = Some (map (\<lambda>f. Some (snd f)) fs)"
    and "0 < t \<Longrightarrow> rd_expire R s k t = Some s' \<Longrightarrow> rd_hmget R s' k gs = rd_hmget R s k gs"
    and "0 \<le> n \<Longrightarrow> n \<le> 2 ^ 53 \<Longrightarrow> l_tonumber L (l_str L (of_int n)) = Some (of_int n)"
  using assms unfolding keeps_fields_def by blast+

text \<open>The checks of a key during the window with index \<open>w\<close>; others may move the clock within it.\<close>

inductive sliding_run :: "lua \<Rightarrow> 's redis \<Rightarrow> ngx_str \<Rightarrow> int \<Rightarrow> int \<Rightarrow> int \<Rightarrow> 's \<Rightarrow> int \<Rightarrow> 's \<Rightarrow> bool"
  for L R k lm window w s0 where
  begin_slide: "sliding_run L R k lm window w s0 0 s0"
| check_slide: "sliding_run L R k lm window w s0 a s \<Longrightarrow> 0 \<le> q \<Longrightarrow>
    fst (window_of L R s (of_int window)) = of_int w \<Longrightarrow>
    sliding_window L R s k (of_int lm) (of_int window) (of_int q) = Some (rs, s') \<Longrightarrow>
    sliding_run L R k lm window w s0 (a + (if hd rs = 0 then q else 0)) s'"
| others_slide: "sliding_run L R k lm window w s0 a s \<Longrightarrow> rd_hmget R s' k = rd_hmget R s k \<Longrightarrow>
    sliding_run L R k lm window w s0 a s'"

lemma counts_cong: "rd_hmget R s' k = rd_hmget R s k \<Longrightarrow> counts L R s' k w = counts L R s k w"
  by (simp add: counts_def)

text \<open>The time since the window began is at most its length, however the division rounds.\<close>

lemma elapsed_le:
  assumes L: "doubles L" and wd: "1 \<le> window" "window \<le> 2 ^ 53" "0 \<le> w" "(w + 1) * window \<le> 2 ^ 53"
    and w: "window_of L R s (of_int window) = (of_int w, elapsed)"
  shows "0 \<le> dvd_by L (sub L (of_int window) elapsed) (of_int window)"
proof -
  let ?now = "now_of L R s" and ?d = "of_int window :: rat"
  have fl: "\<lfloor>dvd_by L ?now ?d\<rfloor> = w" and el: "elapsed = sub L ?now (mul L (of_int w) ?d)"
    using w by (auto simp: window_of_def Let_def)
  have small: "w * window \<le> (w + 1) * window" "0 \<le> w * window" "w + 1 \<le> (w + 1) * window"
    using wd mult_left_mono [of 1 window "w + 1"] by (simp_all add: algebra_simps)
  have "?now < of_int ((w + 1) * window)"
  proof (rule ccontr)
    assume "\<not> ?now < of_int ((w + 1) * window)"
    then have "of_int (w + 1) \<le> ?now / ?d" using wd(1) by (simp add: field_simps)
    moreover have "\<bar>w + 1\<bar> \<le> 2 ^ 53" using wd small by linarith
    ultimately have "of_int (w + 1) \<le> dvd_by L ?now ?d"
      unfolding dvd_by_def using L by (intro rnd_le_int)
    with fl show False by (metis add.commute floor_less_iff less_add_one linorder_not_le of_int_add of_int_1)
  qed
  then have "?now - of_int (w * window) \<le> ?d" by (simp add: algebra_simps)
  moreover have "mul L (of_int w) ?d = of_int (w * window)"
  proof -
    have "\<bar>w * window\<bar> \<le> 2 ^ 53" using wd small by linarith
    from rnd_int [OF L this] show ?thesis by (simp add: mul_def)
  qed
  ultimately have "elapsed \<le> ?d"
    unfolding el sub_def using L wd by (intro rnd_ge_int) simp_all
  with L wd(1) show ?thesis by (simp add: dvd_by_def sub_def rnd_nonneg)
qed

lemma sliding_step:
  assumes L: "doubles L" and R: "keeps_fields L R k" and lm: "0 \<le> lm" "lm < 2 ^ 53"
    and wd: "1 \<le> window" "window \<le> 2 ^ 53" "0 \<le> w" "(w + 1) * window \<le> 2 ^ 53"
    and c: "counts L R s k (of_int w) = Some (of_int c, of_int p)" "0 \<le> c" "c < 2 ^ 53" "0 \<le> p" "p < 2 ^ 53"
    and q: "0 \<le> q" and w: "fst (window_of L R s (of_int window)) = of_int w"
    and run: "sliding_window L R s k (of_int lm) (of_int window) (of_int q) = Some (rs, s')"
  shows "let a = (if hd rs = 0 then q else 0) in counts L R s' k (of_int w) = Some (of_int (c + a), of_int p)
    \<and> (a = 0 \<or> c + a \<le> lm)"
proof -
  obtain elapsed where we: "window_of L R s (of_int window) = (of_int w, elapsed)"
    using w by (metis prod.collapse)
  let ?weight = "dvd_by L (sub L (of_int window) elapsed) (of_int window)"
  let ?est = "add L (mul L (of_int p) ?weight) (of_int c)"
  note run = run [unfolded sliding_window_def we c(1) prod.case Option.bind.bind_lunit Let_def [of "(_, _)"]]
  have weight: "0 \<le> ?weight" by (rule elapsed_le [OF L wd we])
  consider (peek) "q = 0" | (refuse) "q \<noteq> 0" "of_int lm < add L ?est (of_int q)"
    | (admit) "q \<noteq> 0" "\<not> of_int lm < add L ?est (of_int q)" by blast
  then show ?thesis
  proof cases
    case peek
    with run c show ?thesis by (auto simp: Let_def)
  next
    case refuse
    with run c show ?thesis by (auto simp: Let_def)
  next
    case admit
    have "0 \<le> mul L (of_int p) ?weight" using L weight c(4) by (simp add: mul_def rnd_nonneg)
    then have est: "of_int c \<le> ?est"
      unfolding add_def using L c(2,3) by (intro rnd_le_int) simp_all
    have le: "c + q \<le> lm"
    proof (rule ccontr)
      assume "\<not> c + q \<le> lm"
      then have "of_int (lm + 1) \<le> (of_int (c + q) :: rat)" by simp
      also have "\<dots> \<le> ?est + of_int q" using est by simp
      finally have "of_int (lm + 1) \<le> add L ?est (of_int q)"
        unfolding add_def [of L _ "of_int q"] using L lm by (intro rnd_le_int) simp_all
      with admit(2) show False by simp
    qed
    let ?fs = "[(''c'', l_str L (of_int (c + q))), (''w'', l_str L (of_int w)), (''p'', l_str L (of_int p))]"
    have sum: "add L (of_int c) (of_int q) = of_int (c + q)"
      using L c(2) q le lm rnd_int [of L "c + q"] by (simp add: add_def)
    obtain s1 t where set: "rd_hset R s k ?fs = Some s1" "rd_expire R s1 k (mul L (of_int window) 2) = Some s'"
      and hd: "hd rs = 0"
      using run admit sum by (auto simp: Let_def bind_eq_Some_conv)
    have "of_int 1 \<le> mul L (of_int window) 2"
      unfolding mul_def using L wd(1) by (intro rnd_le_int) simp_all
    then have "0 < mul L (of_int window) 2" by simp
    from keeps_fieldsD(2) [OF R this set(2)] keeps_fieldsD(1) [OF R _ set(1)]
    have "rd_hmget R s' k [''c'', ''w'', ''p''] = Some (map (\<lambda>f. Some (snd f)) ?fs)" by simp
    moreover have "w \<le> 2 ^ 53"
    proof -
      have "w * 1 \<le> (w + 1) * window" using wd by (intro mult_mono) simp_all
      with wd(4) show ?thesis by simp
    qed
    moreover have "sub L (of_int w) 1 \<noteq> of_int w"
      using L wd(3) calculation(2) rnd_int [of L "w - 1"] by (simp add: sub_def)
    moreover have "l_tonumber L (l_str L (of_int (c + q))) = Some (of_int (c + q))"
      "l_tonumber L (l_str L (of_int w)) = Some (of_int w)" "l_tonumber L (l_str L (of_int p)) = Some (of_int p)"
      using c q le lm wd(3) calculation(2) by (intro keeps_fieldsD(3) [OF R]; simp)+
    ultimately have "counts L R s' k (of_int w) = Some (of_int (c + q), of_int p)"
      unfolding counts_def by (simp add: tonum_def)
    with hd le show ?thesis by simp
  qed
qed

text \<open>C8: The sliding window holds its limit too: whatever the previous window counted and however the
  weighted rate rounds, the quantities admitted during one window never bring its count above
  \<open>requests + burst\<close>, and the count is exactly what has been admitted.\<close>

theorem sliding_window_bound:
  assumes "doubles L" "keeps_fields L R k" "0 \<le> lm" "lm < 2 ^ 53"
    and "1 \<le> window" "window \<le> 2 ^ 53" "0 \<le> w" "(w + 1) * window \<le> 2 ^ 53"
    and "counts L R s0 k (of_int w) = Some (of_int c, of_int p)" "0 \<le> c" "c \<le> lm" "0 \<le> p" "p < 2 ^ 53"
    and "sliding_run L R k lm window w s0 a s"
  shows "c + a \<le> lm \<and> counts L R s k (of_int w) = Some (of_int (c + a), of_int p)"
proof -
  have "0 \<le> a \<and> c + a \<le> lm \<and> counts L R s k (of_int w) = Some (of_int (c + a), of_int p)"
    using assms(14)
  proof induction
    case begin_slide
    with assms(9,11) show ?case by simp
  next
    case (check_slide a s q rs s')
    then have "counts L R s k (of_int w) = Some (of_int (c + a), of_int p)" "0 \<le> c + a" "c + a < 2 ^ 53"
      using assms(4,10) by simp_all
    note step = sliding_step [OF assms(1-8) this assms(12,13) check_slide.hyps(2-4)]
    define b where "b = (if hd rs = 0 then q else 0)"
    have st: "counts L R s' k (of_int w) = Some (of_int (c + a + b), of_int p)" "b = 0 \<or> c + a + b \<le> lm"
      using step unfolding Let_def b_def by blast+
    have "0 \<le> a" "c + a \<le> lm" using check_slide.IH by blast+
    moreover have "0 \<le> b" using check_slide.hyps(2) by (simp add: b_def)
    ultimately have "0 \<le> a + b" "c + (a + b) \<le> lm" using st(2) by auto
    with st(1) show ?case unfolding b_def [symmetric] add.assoc by blast
  next
    case (others_slide a s s')
    with counts_cong [OF others_slide.hyps(2), of L "of_int w"] show ?case by simp
  qed
  then show ?thesis by blast
qed

lemma kv_keeps_fields_of:
  assumes "\<And>n. 0 \<le> n \<Longrightarrow> l_tonumber L (l_str L (of_int n)) = Some (of_int n)"
  shows "keeps_fields L kv_redis k"
proof -
  have "map (\<lambda>f. (m ++ map_of fs) (fst f)) fs = map (\<lambda>f. Some (snd f)) fs"
    if "distinct (map fst fs)" for m :: "ngx_str \<Rightarrow> ngx_str option" and fs
    using that by (auto simp: map_add_def split: option.splits dest: eq_key_imp_eq_value)
  with assms show ?thesis unfolding keeps_fields_def by (auto simp: o_def)
qed

lemma kv_keeps_fields: "keeps_fields whole_lua kv_redis k"
  by (rule kv_keeps_fields_of) simp

theorem sliding_window_bound_witness:
  "\<exists>s. sliding_run whole_lua kv_redis ''k'' 10 60 16 empty_kv 6 s
     \<and> counts whole_lua kv_redis s ''k'' (of_int 16) = Some (of_int 6, of_int 0)"
proof -
  let ?run = "sliding_run whole_lua kv_redis ''k'' 10 60 16 empty_kv"
  have w: "window_of whole_lua kv_redis empty_kv (of_int 60) = (of_int 16, 40)"
    by (simp add: window_of_def whole_eval floor_eq_iff)
  have c: "counts whole_lua kv_redis empty_kv ''k'' (of_int 16) = Some (of_int 0, of_int 0)"
    by (simp add: counts_def whole_eval)
  obtain rs s1 where st: "sliding_window whole_lua kv_redis empty_kv ''k'' (of_int 10) (of_int 60) (of_int 6) = Some (rs, s1)"
    and "hd rs = 0"
    using c unfolding sliding_window_def w by (simp add: Let_def add_def sub_def mul_def dvd_by_def)
  with sliding_run.check_slide [OF sliding_run.begin_slide _ _ st] w have 1: "?run 6 s1" by simp
  from sliding_window_bound [OF whole_lua_doubles kv_keeps_fields _ _ _ _ _ _ c _ _ _ _ 1] 1 show ?thesis by auto
qed

section \<open>A GCRA peek beyond the horizon\<close>

text \<open>C39: A GCRA peek can break the reply contract.  When the stored arrival time lies further ahead than
  the burst of the asking location reaches (another location on the same key has the larger
  \<open>ratelimit ... burst=\<close>), the script reports a negative number of remaining requests, since it bounds
  that number from above only, and the parser refuses the reply: the check fails as an internal error
  where the location meant to report a limit.\<close>

theorem gcra_peek_refused:
  assumes "doubles L" "reads_decimals L" "b < 2 ^ 53"
    and "run_script L R s ALGO_GCRA k (map dec [r, period, b, 0]) = Some (rs, s')"
    and "arrival L R s k = Some tat"
    and "emission = dvd_by L (l_rnd L (of_nat period)) (l_rnd L (of_nat r))"
    and "dvd_by L (sub L (now_of L R s) (sub L tat (mul L emission (of_nat b + 1)))) emission < 0"
    and "fresh_ctx c" "offers u (reply_text rs)"
  shows "rs ! 0 = 1 \<and> rs ! 2 < 0 \<and> fst (process_reply c u (length (reply_text rs))) \<noteq> NGX_OK"
proof -
  let ?n = "\<lambda>n. l_rnd L (of_nat n)"
  have num: "map (l_tonumber L) (map dec [r, period, b, 0]) = [Some (?n r), Some (?n period), Some (?n b), Some 0]"
    using assms(1,2) rnd_0 [of L] by (simp add: reads_decimals_def)
  have run: "gcra L R s k (?n r) (?n period) (?n b) 0 = Some (rs, s')"
    using assms(4) unfolding run_script_def num by simp
  have b: "?n b = of_nat b" "add L (of_nat b) 1 = of_nat b + 1"
    using assms(1,3) rnd_int [of L "int b"] rnd_int [of L "int b + 1"] by (simp_all add: add_def)
  let ?avail = "\<lfloor>dvd_by L (sub L (now_of L R s) (sub L tat (mul L emission (of_nat b + 1)))) emission\<rfloor>"
  have neg: "?avail < 0" using assms(7) by linarith
  then have "(of_int ?avail :: rat) < 0" by simp
  moreover have "(0 :: rat) \<le> of_nat b" by simp
  ultimately have cut: "\<not> of_nat b + 1 < (of_int ?avail :: rat)" "(of_int ?avail :: rat) < 1" by linarith+
  obtain rst where rs: "rs = [1, int b + 1, ?avail, -1, rst]"
    using run unfolding gcra_def assms(5) b assms(6) [symmetric] Let_def
    using cut trunc_simps(4) [of "int b + 1"] by auto
  have "ref_reply (reply_text rs) = None"
  proof -
    have "number_from 0 (resp_int ?avail @ t) = None" for t
      using neg by (simp add: resp_int_def number_from_Cons field_char_def)
    moreover have "number_from 0 (resp_int (int b + 1) @ t) = Some (nat (int b + 1), t)" for t
      using assms(3) by (intro number_from_resp) simp_all
    ultimately show ?thesis
      by (simp add: rs reply_text_def ref_reply_def lax_eol_Cons status_field_resp)
  qed
  with reply_matches_reference [OF assms(8,9)] rs neg show ?thesis by simp
qed

text \<open>A check of quantity 5 in a location with burst 10, and a peek at the same key in one with burst 0.\<close>

theorem gcra_peek_refused_witness:
  "\<exists>rs1 s1 rs2 s2.
     run_script whole_lua kv_redis empty_kv ALGO_GCRA ''k'' (map dec [1, 1, 10, 5]) = Some (rs1, s1) \<and> rs1 ! 0 = 0
     \<and> run_script whole_lua kv_redis s1 ALGO_GCRA ''k'' (map dec [1, 1, 0, 0]) = Some (rs2, s2)
     \<and> rs2 ! 2 < 0 \<and> fst (process_reply sample_ctx (reply_at (reply_text rs2)) (length (reply_text rs2))) \<noteq> NGX_OK"
proof -
  obtain s1 where 1: "run_script whole_lua kv_redis empty_kv ALGO_GCRA ''k'' (map dec [1, 1, 10, 5]) = Some ([0, 11, 6, -1, 5], s1)"
    and s1: "kv_str s1 ''k'' = Some (dec 1005)" "kv_now s1 = 1000"
    by (simp add: run_script_def gcra_def arrival_def whole_eval)
  obtain rs2 s2 where 2: "run_script whole_lua kv_redis s1 ALGO_GCRA ''k'' (map dec [1, 1, 0, 0]) = Some (rs2, s2)"
    and a: "arrival whole_lua kv_redis s1 ''k'' = Some 1005"
    using s1 by (simp add: run_script_def gcra_def arrival_def tonum_def now_of_def add_def dvd_by_def Let_def)
  have "dvd_by whole_lua (sub whole_lua (now_of whole_lua kv_redis s1)
      (sub whole_lua 1005 (mul whole_lua 1 (of_nat 0 + 1)))) 1 < 0"
    using s1 by (simp add: now_of_def add_def sub_def mul_def dvd_by_def)
  from gcra_peek_refused [OF whole_lua_doubles whole_lua_decimals _ 2 a _ this fresh_sample_ctx offers_reply_at] 1 2
  show ?thesis by (auto simp: dvd_by_def)
qed

end
