(* ===== verification/RL_Bucket.thy ===== *)
theory RL_Bucket
  imports RL_Limit
begin

text \<open>
  The rate of the token bucket: over any sequence of checks the quantities admitted stay within the tokens
  at the start plus the refill of the time that passed, up to the rounding of each check.
\<close>

section \<open>Rounding\<close>

text \<open>One unit of rounding.  Times in seconds and capacities are below \<open>2^32\<close> here; a double of that size
  is off by at most \<open>2^-22\<close>, and \<open>%.6f\<close> by half of the last digit more, both within one millionth.\<close>

definition unit_err :: rat where "unit_err = 1 / 1000000"

definition accurate :: "lua \<Rightarrow> bool" where
  "accurate L \<longleftrightarrow> (\<forall>x. \<bar>x\<bar> \<le> 2 ^ 32 \<longrightarrow> \<bar>l_rnd L x - x\<bar> \<le> unit_err)
     \<and> (\<forall>x. 0 \<le> x \<longrightarrow> x \<le> 2 ^ 32 \<longrightarrow>
          (\<exists>y. l_tonumber L (l_fmt L x) = Some y \<and> 0 \<le> y \<and> \<bar>y - x\<bar> \<le> unit_err))"

lemma accurateD:
  assumes "accurate L"
  shows rnd_close: "\<bar>x\<bar> \<le> 2 ^ 32 \<Longrightarrow> \<bar>l_rnd L x - x\<bar> \<le> unit_err"
    and fmt_close: "0 \<le> x \<Longrightarrow> x \<le> 2 ^ 32 \<Longrightarrow>
      \<exists>y. l_tonumber L (l_fmt L x) = Some y \<and> 0 \<le> y \<and> \<bar>y - x\<bar> \<le> unit_err"
  using assms by (simp_all add: accurate_def)

lemma unit_err_pos: "0 < unit_err" by (simp add: unit_err_def)

text \<open>The refill of a bucket adds at most the rate times the elapsed time, up to the rounding of the three
  operations.\<close>

definition refill :: "lua \<Rightarrow> rat \<Rightarrow> rat \<Rightarrow> rat \<Rightarrow> rat \<Rightarrow> rat \<Rightarrow> rat \<times> rat" where
  "refill L capacity rate now tokens ts =
     (let elapsed = sub L now ts in
      if 0 < elapsed
      then let tokens = add L tokens (mul L elapsed rate)
           in (if capacity < tokens then capacity else tokens, now)
      else (tokens, ts))"

lemma refill_bound:
  assumes L: "doubles L" "accurate L" and pos: "0 \<le> rate" "0 \<le> capacity" "0 \<le> tokens"
    and small: "capacity \<le> 2 ^ 31" "\<bar>now - ts\<bar> \<le> 2 ^ 32"
    and r: "refill L capacity rate now tokens ts = (t1, ts1)"
  shows "t1 - rate * ts1 \<le> tokens - rate * ts + (2 + rate) * unit_err"
    and "0 \<le> t1" "t1 \<le> max capacity tokens" "ts1 = now \<or> ts1 = ts"
proof -
  define e where "e = sub L now ts"
  define m where "m = e * rate"
  define x where "x = add L tokens (mul L e rate)"
  have t1: "t1 = (if 0 < e then (if capacity < x then capacity else x) else tokens)"
    and ts1: "ts1 = (if 0 < e then now else ts)"
    using r by (auto simp: refill_def e_def x_def Let_def split: if_splits)
  have x0: "0 \<le> x" if "0 < e"
    using L(1) pos that by (simp add: x_def add_def mul_def rnd_nonneg)
  show "0 \<le> t1" "t1 \<le> max capacity tokens" "ts1 = now \<or> ts1 = ts"
    using x0 pos by (auto simp: t1 ts1)
  show "t1 - rate * ts1 \<le> tokens - rate * ts + (2 + rate) * unit_err"
  proof (cases "0 < e")
    case False
    then show ?thesis using pos(1) unit_err_pos by (simp add: t1 ts1)
  next
    case True
    have "e \<le> now - ts + unit_err" using rnd_close [OF L(2) small(2)] by (simp add: e_def sub_def)
    then have m: "m \<le> rate * (now - ts) + rate * unit_err"
      using mult_right_mono [of e "now - ts + unit_err" rate] pos(1) by (simp add: m_def algebra_simps)
    have m0: "0 \<le> m" using True pos(1) by (simp add: m_def)
    have "t1 \<le> tokens + m + 2 * unit_err"
    proof (cases "m \<le> 2 ^ 32")
      case False
      have "t1 \<le> capacity" using True by (simp add: t1)
      with False small(1) pos(3) unit_err_pos show ?thesis by simp
    next
      case le: True
      define y where "y = mul L e rate"
      have y: "\<bar>y - m\<bar> \<le> unit_err" using rnd_close [OF L(2), of m] le m0 by (simp add: y_def mul_def m_def)
      have y0: "0 \<le> y" using L(1) m0 by (simp add: y_def mul_def m_def [symmetric] rnd_nonneg)
      show ?thesis
      proof (cases "tokens + y \<le> 2 ^ 32")
        case True
        have "\<bar>x - (tokens + y)\<bar> \<le> unit_err"
          using rnd_close [OF L(2), of "tokens + y"] True pos(3) y0 by (simp add: x_def add_def y_def)
        moreover have "t1 \<le> x" using \<open>0 < e\<close> by (simp add: t1)
        ultimately show ?thesis using y by linarith
      next
        case False
        have "t1 \<le> capacity" using \<open>0 < e\<close> by (simp add: t1)
        with False small(1) y unit_err_pos show ?thesis by simp
      qed
    qed
    with m True show ?thesis by (simp add: ts1 algebra_simps)
  qed
qed

section \<open>The stored bucket\<close>

definition stored :: "lua \<Rightarrow> 's redis \<Rightarrow> 's \<Rightarrow> ngx_str \<Rightarrow> (rat \<times> rat) option" where
  "stored L R s k =
     Option.bind (rd_hmget R s k [''tokens'', ''ts'']) (\<lambda>data.
     case (tonum L (data ! 0), tonum L (data ! 1)) of (Some t, Some ts) \<Rightarrow> Some (t, ts) | _ \<Rightarrow> None)"

lemma bucket_stored:
  assumes "stored L R s k = Some (tokens, ts)"
  shows "bucket L R s k capacity rate = Some (refill L capacity rate (now_of L R s) tokens ts)"
proof -
  from assms obtain data where d: "rd_hmget R s k [''tokens'', ''ts''] = Some data"
    "tonum L (data ! 0) = Some tokens" "tonum L (data ! 1) = Some ts"
    by (auto simp: stored_def bind_eq_Some_conv split: option.splits)
  have "tonum L (data ! Suc 0) = Some ts" using d(3) by simp
  with d(1,2) show ?thesis unfolding bucket_def refill_def Let_def by simp
qed

lemma stored_cong: "rd_hmget R s' k = rd_hmget R s k \<Longrightarrow> stored L R s' k = stored L R s k"
  by (simp add: stored_def)

text \<open>What the script writes is read back, up to one unit.\<close>

lemma stored_write:
  assumes L: "accurate L" and R: "keeps_fields L R k"
    and b: "0 \<le> t" "t \<le> 2 ^ 32" "0 \<le> ts" "ts \<le> 2 ^ 32" and "0 < ttl"
    and set: "rd_hset R s k [(''tokens'', l_fmt L t), (''ts'', l_fmt L ts)] = Some s1" "rd_expire R s1 k ttl = Some s'"
  shows "\<exists>t' ts'. stored L R s' k = Some (t', ts') \<and> 0 \<le> t' \<and> \<bar>t' - t\<bar> \<le> unit_err
    \<and> 0 \<le> ts' \<and> \<bar>ts' - ts\<bar> \<le> unit_err"
proof -
  obtain t' ts' where y: "l_tonumber L (l_fmt L t) = Some t'" "0 \<le> t'" "\<bar>t' - t\<bar> \<le> unit_err"
    "l_tonumber L (l_fmt L ts) = Some ts'" "0 \<le> ts'" "\<bar>ts' - ts\<bar> \<le> unit_err"
    using fmt_close [OF L] b by meson
  have "rd_hmget R s' k [''tokens'', ''ts''] = Some [Some (l_fmt L t), Some (l_fmt L ts)]"
    using keeps_fieldsD(2) [OF R \<open>0 < ttl\<close> set(2)] keeps_fieldsD(1) [OF R _ set(1)] by simp
  with y show ?thesis by (simp add: stored_def tonum_def)
qed

section \<open>One check\<close>

lemma at_least_one: "(0 :: rat) < (if x < 1 then 1 else x)"
  by (cases "x < 1") simp_all

text \<open>The room of a bucket: its tokens less what the rate has refilled until its time.\<close>

definition room_of :: "rat \<Rightarrow> rat \<times> rat \<Rightarrow> rat" where
  "room_of rate b = fst b - rate * snd b"

definition check_err :: "rat \<Rightarrow> rat" where
  "check_err rate = (4 + 2 * rate) * unit_err"

lemma token_bucket_step:
  assumes L: "doubles L" "accurate L" and R: "keeps_fields L R k"
    and cfg: "capacity = add L requests burst" "rate = dvd_by L requests period" "0 \<le> capacity" "capacity \<le> 2 ^ 31" "0 \<le> rate"
    and now: "0 \<le> now_of L R s" "now_of L R s \<le> 2 ^ 31" and q: "0 \<le> q"
    and b: "stored L R s k = Some (tokens, ts)" "0 \<le> tokens" "tokens \<le> 2 ^ 32 - 1" "0 \<le> ts" "ts \<le> 2 ^ 32 - 1"
    and run: "token_bucket L R s k requests period burst q = Some (rs, s')"
  shows "\<exists>tokens' ts'. stored L R s' k = Some (tokens', ts') \<and> 0 \<le> tokens' \<and> 0 \<le> ts'
    \<and> tokens' \<le> max capacity tokens + 2 * unit_err \<and> ts' \<le> max (2 ^ 31) ts + unit_err
    \<and> room_of rate (tokens', ts') + (if hd rs = 0 then q else 0) \<le> room_of rate (tokens, ts) + check_err rate"
proof -
  obtain t1 ts1 where rf: "refill L capacity rate (now_of L R s) tokens ts = (t1, ts1)" by fastforce
  have "\<bar>now_of L R s - ts\<bar> \<le> 2 ^ 32" using now b(4,5) by simp
  note f = refill_bound [OF L cfg(5,3) b(2) cfg(4) this rf]
  note run = run [unfolded token_bucket_def cfg(1,2) [symmetric] Let_def [of capacity] Let_def [of rate]
    bucket_stored [OF b(1)] Option.bind.bind_lunit, unfolded rf prod.case]
  have t1: "t1 \<le> 2 ^ 32" and ts1: "0 \<le> ts1" "ts1 \<le> 2 ^ 32" "ts1 \<le> max (2 ^ 31) ts"
    using f(2-4) b cfg(4) now by auto
  have e0: "0 \<le> rate * unit_err" using cfg(5) unit_err_pos by simp
  have keep: "- rate * ts' \<le> - rate * ts1 + rate * unit_err" if "\<bar>ts' - ts1\<bar> \<le> unit_err" for ts'
    using mult_left_mono [of "ts1 - unit_err" ts' rate] that cfg(5) by (simp add: algebra_simps)
  let ?ttl = "(if of_int \<lceil>dvd_by L capacity rate\<rceil> < (1 :: rat) then 1 else of_int \<lceil>dvd_by L capacity rate\<rceil>) :: rat"
  have ttl: "0 < ?ttl" by (rule at_least_one)
  consider (peek) "q = 0" | (admit) "q \<noteq> 0" "q \<le> t1" | (refuse) "q \<noteq> 0" "\<not> q \<le> t1" by blast
  then show ?thesis
  proof cases
    case peek
    with run b cfg(5) unit_err_pos e0 show ?thesis by (auto simp: Let_def check_err_def algebra_simps)
  next
    case admit
    define t2 where "t2 = sub L t1 q"
    have t2: "0 \<le> t2" "\<bar>t2 - (t1 - q)\<bar> \<le> unit_err"
      using L(1) admit(2) rnd_close [OF L(2), of "t1 - q"] f(2) t1 q by (simp_all add: t2_def sub_def rnd_nonneg)
    have "t2 \<le> 2 ^ 32"
      using rnd_mono [OF L(1), of "t1 - q" "of_int (2 ^ 32)"] rnd_int [OF L(1), of "2 ^ 32"] t1 q
      by (simp add: t2_def sub_def)
    obtain s1 where set: "rd_hset R s k [(''tokens'', l_fmt L t2), (''ts'', l_fmt L ts1)] = Some s1"
      "rd_expire R s1 k ?ttl = Some s'" and hd: "hd rs = 0"
      using run admit by (auto simp: Let_def t2_def bind_eq_Some_conv)
    from stored_write [OF L(2) R t2(1) \<open>t2 \<le> 2 ^ 32\<close> ts1(1,2) ttl set] obtain t' ts' where
      st: "stored L R s' k = Some (t', ts')" "0 \<le> t'" "\<bar>t' - t2\<bar> \<le> unit_err" "0 \<le> ts'" "\<bar>ts' - ts1\<bar> \<le> unit_err" by blast
    have "t' - rate * ts' + q \<le> tokens - rate * ts + check_err rate"
      using f(1) keep [OF st(5)] st(3) t2(2) by (simp add: check_err_def algebra_simps)
    moreover have "t' \<le> max capacity tokens + 2 * unit_err" "ts' \<le> max (2 ^ 31) ts + unit_err"
      using f(3) st(3,5) t2(2) q ts1(3) by linarith+
    ultimately show ?thesis using st(1,2,4) hd by (simp add: room_of_def)
  next
    case refuse
    obtain s1 where set: "rd_hset R s k [(''tokens'', l_fmt L t1), (''ts'', l_fmt L ts1)] = Some s1"
      "rd_expire R s1 k ?ttl = Some s'" and hd: "hd rs = 1"
      using run refuse by (auto simp: Let_def bind_eq_Some_conv)
    from stored_write [OF L(2) R f(2) t1 ts1(1,2) ttl set] obtain t' ts' where
      st: "stored L R s' k = Some (t', ts')" "0 \<le> t'" "\<bar>t' - t1\<bar> \<le> unit_err" "0 \<le> ts'" "\<bar>ts' - ts1\<bar> \<le> unit_err" by blast
    have "t' - rate * ts' \<le> tokens - rate * ts + check_err rate"
      using f(1) keep [OF st(5)] st(3) unit_err_pos by (simp add: check_err_def algebra_simps)
    moreover have "t' \<le> max capacity tokens + 2 * unit_err" "ts' \<le> max (2 ^ 31) ts + unit_err"
      using f(3) st(3,5) unit_err_pos ts1(3) by linarith+
    ultimately show ?thesis using st(1,2,4) hd by (simp add: room_of_def)
  qed
qed

section \<open>The rate over a run\<close>

text \<open>The life of a bucket that does not expire: \<open>n\<close> checks of any quantity at any times (the clock may
  even step back), with other clients in between; \<open>a\<close> is the quantity admitted so far.\<close>

inductive bucket_run ::
    "lua \<Rightarrow> 's redis \<Rightarrow> ngx_str \<Rightarrow> rat \<Rightarrow> rat \<Rightarrow> rat \<Rightarrow> 's \<Rightarrow> nat \<Rightarrow> rat \<Rightarrow> 's \<Rightarrow> bool"
  for L R k requests period burst s0 where
  begin_bucket: "bucket_run L R k requests period burst s0 0 0 s0"
| check_bucket: "bucket_run L R k requests period burst s0 n a s \<Longrightarrow> 0 \<le> q \<Longrightarrow>
    0 \<le> now_of L R s \<Longrightarrow> now_of L R s \<le> 2 ^ 31 \<Longrightarrow>
    token_bucket L R s k requests period burst q = Some (rs, s') \<Longrightarrow>
    bucket_run L R k requests period burst s0 (Suc n) (a + (if hd rs = 0 then q else 0)) s'"
| others_bucket: "bucket_run L R k requests period burst s0 n a s \<Longrightarrow> rd_hmget R s' k = rd_hmget R s k \<Longrightarrow>
    bucket_run L R k requests period burst s0 n a s'"


text \<open>Arithmetic that stores millionths, and a bucket of 10 tokens refilled by one per second: of two checks
  of quantity 8 at the same time one is admitted.\<close>

definition micro_lua :: lua where
  "micro_lua = \<lparr>l_rnd = (\<lambda>x. x),
     l_tonumber = (\<lambda>s. if s \<noteq> [] \<and> hd s = CHR ''m'' then Some (of_nat (dec_value (tl s)) / 1000000)
                       else Some (of_nat (dec_value s))),
     l_fmt = (\<lambda>x. CHR ''m'' # dec (nat \<lfloor>x * 1000000\<rfloor>)), l_str = (\<lambda>x. dec (nat \<lfloor>x\<rfloor>))\<rparr>"

lemma micro_lua_simps [simp]:
  "l_rnd micro_lua x = x" "l_fmt micro_lua x = CHR ''m'' # dec (nat \<lfloor>x * 1000000\<rfloor>)"
  "l_str micro_lua x = dec (nat \<lfloor>x\<rfloor>)" "l_tonumber micro_lua (CHR ''m'' # ds) = Some (of_nat (dec_value ds) / 1000000)"
  by (simp_all add: micro_lua_def)

lemma micro_lua_dec [simp]: "l_tonumber micro_lua (dec n) = Some (of_nat n)"
proof -
  have "is_digit (hd (dec n))" by (rule dec_digits [OF hd_in_set]) simp
  then have "hd (dec n) \<noteq> CHR ''m''" by (auto simp: is_digit_def byte_def)
  then show ?thesis by (simp add: micro_lua_def)
qed

lemma micro_lua_doubles: "doubles micro_lua"
  by (simp add: doubles_def)

lemma micro_lua_accurate: "accurate micro_lua"
proof -
  have "\<exists>y. l_tonumber micro_lua (l_fmt micro_lua x) = Some y \<and> 0 \<le> y \<and> \<bar>y - x\<bar> \<le> unit_err" if "0 \<le> x" for x
  proof -
    have "of_nat (nat \<lfloor>x * 1000000\<rfloor>) = (of_int \<lfloor>x * 1000000\<rfloor> :: rat)" using that by simp
    moreover have "of_int \<lfloor>x * 1000000\<rfloor> \<le> x * 1000000" "x * 1000000 < of_int \<lfloor>x * 1000000\<rfloor> + 1"
      by linarith+
    ultimately have "\<bar>of_nat (nat \<lfloor>x * 1000000\<rfloor>) / 1000000 - x\<bar> \<le> unit_err"
      by (simp add: unit_err_def)
    then show ?thesis by (intro exI [of _ "of_nat (nat \<lfloor>x * 1000000\<rfloor>) / 1000000"]) simp
  qed
  then show ?thesis using unit_err_pos by (simp add: accurate_def)
qed

definition full_bucket :: kv where
  "full_bucket = empty_kv\<lparr>kv_hash := (\<lambda>_. [''tokens'' \<mapsto> dec 10, ''ts'' \<mapsto> dec 1000])\<rparr>"

lemma micro_check:
  assumes "stored micro_lua kv_redis s ''k'' = Some (t, 1000)" "kv_now s = 1000"
  shows "\<exists>rs s'. token_bucket micro_lua kv_redis s ''k'' 5 5 5 8 = Some (rs, s') \<and> kv_now s' = 1000
    \<and> hd rs = (if 8 \<le> t then 0 else 1)"
proof -
  have "refill micro_lua 10 1 (now_of micro_lua kv_redis s) t 1000 = (t, 1000)"
    using assms(2) by (simp add: refill_def now_of_def add_def sub_def dvd_by_def)
  with bucket_stored [OF assms(1), of 10 1] assms(2) show ?thesis
    by (simp add: token_bucket_def add_def dvd_by_def Let_def)
qed

lemma micro_admits:
  assumes "stored micro_lua kv_redis s ''k'' = Some (10, 1000)" "kv_now s = 1000"
    and "token_bucket micro_lua kv_redis s ''k'' 5 5 5 8 = Some (rs, s')"
  shows "stored micro_lua kv_redis s' ''k'' = Some (2, 1000)"
proof -
  have "refill micro_lua 10 1 (now_of micro_lua kv_redis s) 10 1000 = (10, 1000)"
    using assms(2) by (simp add: refill_def now_of_def add_def sub_def dvd_by_def)
  with bucket_stored [OF assms(1), of 10 1] assms(3) show ?thesis
    by (auto simp: token_bucket_def add_def sub_def dvd_by_def Let_def stored_def tonum_def)
qed


end
